theory Spec2Isabelle
  imports Main "HOL-Library.Sublist" "HOL-Library.Multiset" "HOL-Library.Extended_Nat"
begin

section \<open>Strings of the source\<close>

text \<open>
  A JavaScript string is modelled as a \<^typ>\<open>string\<close>, one \<^typ>\<open>char\<close> per code unit, for
  code units below 256. In that range the white space removed by \<^verbatim>\<open>trim\<close> is
  TAB, LF, VT, FF, CR, SPACE and NBSP, and the line terminators that the regular
  expression atom \<^verbatim>\<open>.\<close> refuses are LF and CR.

  Line numbers are JavaScript numbers, that is doubles. The values that occur are the
  natural numbers that a double can hold and \<^verbatim>\<open>Infinity\<close>; they are modelled as \<^typ>\<open>enat\<close>
  with the rounding of the double written out.
\<close>

definition isWhiteSpace :: "char \<Rightarrow> bool" where
  "isWhiteSpace c = (c \<in> set [CHR 0x09, CHR 0x0A, CHR 0x0B, CHR 0x0C, CHR 0x0D, CHR 0x20, CHR 0xA0])"

definition isLineTerminator :: "char \<Rightarrow> bool" where
  "isLineTerminator c = (c = CHR 0x0A \<or> c = CHR 0x0D)"

definition isDigit :: "char \<Rightarrow> bool" where
  "isDigit c = (c \<in> set ''0123456789'')"

text \<open>\<^verbatim>\<open>String.prototype.trim\<close>.\<close>

definition trim :: "string \<Rightarrow> string" where
  "trim s = rev (dropWhile isWhiteSpace (rev (dropWhile isWhiteSpace s)))"

text \<open>\<^verbatim>\<open>str.split(sep)\<close> for a separator of one character; the empty string gives one
  empty piece.\<close>

fun split :: "char \<Rightarrow> string \<Rightarrow> string list" where
  "split sep [] = [[]]"
| "split sep (c # cs) =
     (if c = sep then [] # split sep cs
      else (case split sep cs of
              [] \<Rightarrow> [[c]]
            | w # ws \<Rightarrow> (c # w) # ws))"

text \<open>\<^verbatim>\<open>arr.join(sep)\<close> for a separator of one character.\<close>

fun join :: "char \<Rightarrow> string list \<Rightarrow> string" where
  "join sep [] = []"
| "join sep [w] = w"
| "join sep (w # ws) = w @ sep # join sep ws"

text \<open>
  \<^verbatim>\<open>function startsWith(str, start) { return str.substr(0, start.length) === start; }\<close>
\<close>

definition startsWith :: "string \<Rightarrow> string \<Rightarrow> bool" where
  "startsWith str start = (take (length start) str = start)"

text \<open>
  The double nearest to a natural number, ties to the even mantissa: the number itself
  when it has at most 53 binary digits, else its leading 53 binary digits rounded, and
  \<^verbatim>\<open>Infinity\<close> when the rounded value needs more than 1024 binary digits.
\<close>

fun bitLength :: "nat \<Rightarrow> nat" where
  "bitLength n = (if n = 0 then 0 else Suc (bitLength (n div 2)))"

declare bitLength.simps [simp del]

definition toDouble :: "nat \<Rightarrow> enat" where
  "toDouble n =
     (let e = bitLength n - 53;
          q = n div 2 ^ e;
          r = n mod 2 ^ e;
          m = (if 2 ^ e < 2 * r \<or> (2 * r = 2 ^ e \<and> odd q) then q + 1 else q) * 2 ^ e
      in if bitLength m \<le> 1024 then enat m else \<infinity>)"

text \<open>\<^verbatim>\<open>currentFromLine++\<close>: the sum with 1, rounded to a double.\<close>

definition increment :: "enat \<Rightarrow> enat" where
  "increment x = (case x of enat n \<Rightarrow> toDouble (n + 1) | \<infinity> \<Rightarrow> \<infinity>)"

text \<open>
  Unary plus on a string of decimal digits: the double nearest to its decimal value.
  (The language lets an engine round a string of more than 20 significant digits from
  its first 20 digits; the model rounds the exact value, as the engines in use do.)
\<close>

definition digitValue :: "char \<Rightarrow> nat" where
  "digitValue c = of_char c - 48"

definition toNumber :: "string \<Rightarrow> enat" where
  "toNumber ds = toDouble (foldl (\<lambda>n c. 10 * n + digitValue c) 0 ds)"

section \<open>The diff parser\<close>

record FileInfo =
  path :: string
  deletedLines :: "enat list"

text \<open>
  What a call can throw: \<^verbatim>\<open>new Error(message)\<close>, or the engine's TypeError when a method
  or property of \<^verbatim>\<open>undefined\<close> is read.
\<close>

datatype error = Error string | TypeError

text \<open>
  \<^verbatim>\<open>line.replace(/^diff --git a\/(.+) b\/.+/g, '$1')\<close>. After the fixed prefix the match
  lies inside the first run of characters free of line terminators (\<open>seg\<close>). The group
  is greedy: it ends at the last occurrence of \<^verbatim>\<open> b/\<close> that leaves the group non-empty and
  has a character after it; the final \<^verbatim>\<open>.+\<close> takes the rest of the run. The matched text
  is replaced by the group and what follows the run is kept. A line without a match is
  returned as it is.
\<close>

definition gitHeaderSplit :: "string \<Rightarrow> nat option" where
  "gitHeaderSplit seg =
     List.find (\<lambda>i. take 3 (drop i seg) = '' b/'' \<and> i + 3 < length seg)
       (rev [1 ..< length seg])"

definition fromFileOf :: "string \<Rightarrow> string" where
  "fromFileOf line =
     (if startsWith line ''diff --git a/'' then
        (let t = drop 13 line;
             seg = takeWhile (\<lambda>c. \<not> isLineTerminator c) t;
             rest = dropWhile (\<lambda>c. \<not> isLineTerminator c) t
         in case gitHeaderSplit seg of
              None \<Rightarrow> line
            | Some i \<Rightarrow> take i seg @ rest)
      else line)"

text \<open>
  \<^verbatim>\<open>line.match(/^\@\@ -([0-9]+),?([0-9]+)? \+([0-9]+),?([0-9]+)? \@\@/)\<close>, giving the first
  group when the line matches. Each group of digits is followed by a character that is
  no digit, so whenever the expression matches, the greedy groups are the whole runs of
  digits, and a deterministic scan decides the match.
\<close>

definition stripPrefix :: "string \<Rightarrow> string \<Rightarrow> string option" where
  "stripPrefix p s = (if startsWith s p then Some (drop (length p) s) else None)"

definition optComma :: "string \<Rightarrow> string" where
  "optComma s = (case s of [] \<Rightarrow> [] | c # cs \<Rightarrow> if c = CHR '','' then cs else s)"

definition hunkHeader :: "string \<Rightarrow> string option" where
  "hunkHeader line =
     (case stripPrefix ''@@ -'' line of
        None \<Rightarrow> None
      | Some t \<Rightarrow>
          (let from_line = takeWhile isDigit t;
               t1 = dropWhile isDigit (optComma (dropWhile isDigit t))
           in if from_line = [] then None
              else (case stripPrefix '' +'' t1 of
                      None \<Rightarrow> None
                    | Some t2 \<Rightarrow>
                        (let to_line = takeWhile isDigit t2;
                             t3 = dropWhile isDigit (optComma (dropWhile isDigit t2))
                         in if to_line = [] then None
                            else if startsWith t3 '' @@'' then Some from_line
                            else None))))"

text \<open>
  The loop of \<^verbatim>\<open>parseDiffFile\<close> over the hunks. The source pops lines off the end of a
  reversed array; here the list is in reading order and its head is the next line.
  The result is \<^verbatim>\<open>deletedLines\<close> and the lines left for the next file.
\<close>

fun parseHunks :: "enat \<Rightarrow> enat list \<Rightarrow> string list \<Rightarrow> enat list \<times> string list" where
  "parseHunks currentFromLine deleted [] = (deleted, [])"
| "parseHunks currentFromLine deleted (line # lines) =
     (if startsWith line ''diff --git'' then (deleted, line # lines)
      else if startsWith line ''@@'' then
        (case hunkHeader line of
           None \<Rightarrow> parseHunks currentFromLine deleted lines
         | Some from_line \<Rightarrow> parseHunks (toNumber from_line) deleted lines)
      else
        (let deleted' = (if startsWith line ''-'' then deleted @ [currentFromLine] else deleted);
             currentFromLine' =
               (if \<not> startsWith line ''+'' then increment currentFromLine
                else currentFromLine)
         in parseHunks currentFromLine' deleted' lines))"

definition invalidDiffLine :: "string \<Rightarrow> error" where
  "invalidDiffLine line =
     Error (''Invalid line, should start with `diff --git a/`, instead got '' @
            [CHR 0x0A] @ line @ [CHR 0x0A])"

definition invalidPlusLine :: "string \<Rightarrow> error" where
  "invalidPlusLine line =
     Error (''Invalid line, should start with `+++`, instead got '' @
            [CHR 0x0A] @ line @ [CHR 0x0A])"

text \<open>
  \<^verbatim>\<open>parseDiffFile(lines)\<close>: one file of the diff. \<^verbatim>\<open>lines.pop()\<close> of an empty array is
  \<^verbatim>\<open>undefined\<close>: \<^verbatim>\<open>line.match\<close> and \<^verbatim>\<open>startsWith(line, ...)\<close> then throw a TypeError,
  while \<^verbatim>\<open>!line\<close> is true, as it is for the empty string.
\<close>

definition parseDiffFile :: "string list \<Rightarrow> error + FileInfo \<times> string list" where
  "parseDiffFile lines0 =
     (case lines0 of
        [] \<Rightarrow> Inl TypeError
      | line1 # lines1 \<Rightarrow>
          if \<not> startsWith line1 ''diff --git a/'' then Inl (invalidDiffLine line1)
          else
            (let fromFile = fromFileOf line1 in
             case lines1 of
               [] \<Rightarrow> Inl TypeError
             | line2 # lines2 \<Rightarrow>
                 (let lines3 =
                        (if startsWith line2 ''deleted file'' \<or> startsWith line2 ''new file''
                         then tl lines2 else lines2)
                  in case lines3 of
                       [] \<Rightarrow> Inr (\<lparr>path = fromFile, deletedLines = []\<rparr>, [])
                     | line4 # lines4 \<Rightarrow>
                         if line4 = [] then
                           Inr (\<lparr>path = fromFile, deletedLines = []\<rparr>, lines4)
                         else if startsWith line4 ''diff --git'' then
                           Inr (\<lparr>path = fromFile, deletedLines = []\<rparr>, line4 # lines4)
                         else if startsWith line4 ''Binary files'' then
                           Inr (\<lparr>path = fromFile, deletedLines = []\<rparr>, lines4)
                         else if startsWith line4 ''--- '' then
                           (case lines4 of
                              [] \<Rightarrow> Inl TypeError
                            | line5 # lines5 \<Rightarrow>
                                if \<not> startsWith line5 ''+++ '' then Inl (invalidPlusLine line5)
                                else
                                  (case parseHunks 0 [] lines5 of
                                     (deleted, rest) \<Rightarrow>
                                       Inr (\<lparr>path = fromFile, deletedLines = deleted\<rparr>, rest)))
                         else Inr (\<lparr>path = fromFile, deletedLines = []\<rparr>, lines4))))"

lemma parseHunks_length: "length (snd (parseHunks c d ls)) \<le> length ls"
  by (induction ls arbitrary: c d) (auto split: option.splits simp: Let_def le_SucI)

lemma parseDiffFile_shorter:
  assumes "parseDiffFile ls = Inr (f, rest)"
  shows "length rest < length ls"
proof -
  have h: "\<And>c d xs a b. parseHunks c d xs = (a, b) \<Longrightarrow> length b \<le> length xs"
    using parseHunks_length by (metis snd_conv)
  obtain l1 l2 ls2 where ls: "ls = l1 # l2 # ls2"
    using assms by (auto simp: parseDiffFile_def Let_def split: list.splits if_splits)
  show ?thesis
    using assms unfolding ls
    by (cases ls2)
       (auto simp: parseDiffFile_def Let_def split: list.splits if_splits prod.splits dest!: h)
qed

text \<open>The loop of \<^verbatim>\<open>parseDiff\<close>: \<^verbatim>\<open>while (lines.length > 0) files.push(parseDiffFile(lines))\<close>.\<close>

function parseFiles :: "string list \<Rightarrow> FileInfo list \<Rightarrow> error + FileInfo list" where
  "parseFiles lines files =
     (if lines = [] then Inr files
      else (case parseDiffFile lines of
              Inl e \<Rightarrow> Inl e
            | Inr (f, rest) \<Rightarrow> parseFiles rest (files @ [f])))"
  by pat_completeness auto
termination
  by (relation "measure (\<lambda>(lines, files). length lines)") (auto dest: parseDiffFile_shorter)

declare parseFiles.simps [simp del]

text \<open>\<^verbatim>\<open>parseDiff(diff)\<close>; \<^verbatim>\<open>diff.match(/^diff/)\<close> looks at the start of the text.\<close>

definition parseDiff :: "string \<Rightarrow> error + FileInfo list" where
  "parseDiff diff =
     (if diff = [] \<or> \<not> startsWith diff ''diff'' then Inr []
      else parseFiles (split (CHR 0x0A) (trim diff)) [])"

section \<open>File selection\<close>

text \<open>
  The comparator that \<^verbatim>\<open>checkRepoPath\<close> hands to \<^verbatim>\<open>files.sort\<close>.
\<close>

definition compareDeleted :: "FileInfo \<Rightarrow> FileInfo \<Rightarrow> int" where
  "compareDeleted a b =
     (let countA = length (deletedLines a);
          countB = length (deletedLines b)
      in if countA > countB then - 1 else (if countA < countB then 1 else 0))"

text \<open>
  \<^verbatim>\<open>Array.prototype.sort\<close> belongs to the engine, which chooses the order of elements that
  compare equal; it is a parameter \<open>sortFn\<close> of the model. \<open>sortsBy cmp xs ys\<close> is what the
  language promises of the sorted array \<open>ys\<close> for a consistent comparator: the same elements,
  and no later element ordered before an earlier one.
\<close>

definition sortsBy :: "('a \<Rightarrow> 'a \<Rightarrow> int) \<Rightarrow> 'a list \<Rightarrow> 'a list \<Rightarrow> bool" where
  "sortsBy cmp xs ys = (mset ys = mset xs \<and> sorted_wrt (\<lambda>a b. cmp a b \<le> 0) ys)"

text \<open>\<^verbatim>\<open>arr.slice(0, end)\<close> for an integer \<open>end\<close>; a negative \<open>end\<close> counts from the back.\<close>

definition slice0 :: "'a list \<Rightarrow> int \<Rightarrow> 'a list" where
  "slice0 xs end =
     (if end < 0 then take (nat (int (length xs) + end)) xs else take (nat end) xs)"

text \<open>
  The selection inside \<^verbatim>\<open>checkRepoPath\<close>: sort, then one \<^verbatim>\<open>filter\<close> per glob of
  \<^verbatim>\<open>repoConfig.fileBlacklist\<close>, then \<^verbatim>\<open>slice(0, repoConfig.numFilesToCheck)\<close>. The glob
  matcher \<^verbatim>\<open>minimatch\<close> is a library and a parameter here.
\<close>

definition selectFiles ::
  "((FileInfo \<Rightarrow> FileInfo \<Rightarrow> int) \<Rightarrow> FileInfo list \<Rightarrow> FileInfo list) \<Rightarrow>
   (string \<Rightarrow> string \<Rightarrow> bool) \<Rightarrow> string list \<Rightarrow> int \<Rightarrow> FileInfo list \<Rightarrow> FileInfo list" where
  "selectFiles sortFn minimatch fileBlacklist numFilesToCheck files =
     slice0
       (fold (\<lambda>glob fs. filter (\<lambda>file. \<not> minimatch (path file) glob) fs)
          fileBlacklist (sortFn compareDeleted files))
       numFilesToCheck"

section \<open>Owner lookup\<close>

text \<open>
  An entry of \<^verbatim>\<open>config.pathInfo\<close>; only its \<^verbatim>\<open>path\<close> is read, the other fields are the
  extension of the record. The table itself is a parameter.
\<close>

record pathEntry =
  entry_path :: string

text \<open>
  What \<^verbatim>\<open>getPathInfo\<close> returns: the array \<^verbatim>\<open>[]\<close> it starts with, \<^verbatim>\<open>undefined\<close> (the first
  entry of an empty table), or an entry of the table.
\<close>

datatype 'a pathResult = EmptyArray | Undefined | Entry 'a

text \<open>
  \<^verbatim>\<open>files.filter(function (file) { fullPath = file.path; })\<close>: the callback assigns and
  returns nothing, and the filtered array is dropped.
\<close>

definition lastSeenPath :: "FileInfo list \<Rightarrow> string option" where
  "lastSeenPath files = fold (\<lambda>file fullPath. Some (path file)) files None"

text \<open>The \<^verbatim>\<open>pathInfo.forEach\<close> of one round, on \<^verbatim>\<open>(filteredPathInfo, foundMatch)\<close>.\<close>

definition matchEntries ::
  "'a pathEntry_scheme list \<Rightarrow> string \<Rightarrow>
   'a pathEntry_scheme pathResult \<times> bool \<Rightarrow> 'a pathEntry_scheme pathResult \<times> bool" where
  "matchEntries pathInfo dir st =
     fold (\<lambda>entry st'. if entry_path entry = dir then (Entry entry, True) else st') pathInfo st"

function walkUp ::
  "'a pathEntry_scheme list \<Rightarrow> string list \<Rightarrow>
   'a pathEntry_scheme pathResult \<times> bool \<Rightarrow> 'a pathEntry_scheme pathResult" where
  "walkUp pathInfo splitPath st =
     (if \<not> snd st \<and> length splitPath > 0 then
        (let splitPath' = butlast splitPath
         in walkUp pathInfo splitPath'
              (matchEntries pathInfo (join (CHR ''/'') splitPath' @ ''/'') st))
      else fst st)"
  by pat_completeness auto
termination
  by (relation "measure (\<lambda>(pathInfo, splitPath, st). length splitPath)") auto

declare walkUp.simps [simp del]

definition getPathInfo ::
  "'a pathEntry_scheme list \<Rightarrow> FileInfo list \<Rightarrow> error + 'a pathEntry_scheme pathResult" where
  "getPathInfo pathInfo files =
     (case lastSeenPath files of
        None \<Rightarrow> Inl TypeError
      | Some fullPath \<Rightarrow>
          if CHR ''/'' \<notin> set fullPath then
            Inr (case pathInfo of [] \<Rightarrow> Undefined | entry # _ \<Rightarrow> Entry entry)
          else Inr (walkUp pathInfo (split (CHR ''/'') fullPath) (EmptyArray, False)))"

text \<open>
  \<^verbatim>\<open>checkRepoPath\<close> from the text of the diff on, that is after the awaited fetch.
\<close>

definition checkRepoPath ::
  "((FileInfo \<Rightarrow> FileInfo \<Rightarrow> int) \<Rightarrow> FileInfo list \<Rightarrow> FileInfo list) \<Rightarrow>
   (string \<Rightarrow> string \<Rightarrow> bool) \<Rightarrow> 'a pathEntry_scheme list \<Rightarrow> string list \<Rightarrow> int \<Rightarrow> string \<Rightarrow>
   error + 'a pathEntry_scheme pathResult" where
  "checkRepoPath sortFn minimatch pathInfo fileBlacklist numFilesToCheck diff =
     (case parseDiff diff of
        Inl e \<Rightarrow> Inl e
      | Inr files \<Rightarrow>
          getPathInfo pathInfo (selectFiles sortFn minimatch fileBlacklist numFilesToCheck files))"

section \<open>Reviewer filters\<close>

record WhitelistUser =
  user_name :: string
  user_files :: "string list"
  skipTeamPrs :: bool

record TeamData =
  team_name :: string
  team_id :: int

record TeamMembership =
  member_name :: string
  state :: string

text \<open>
  The requests a filter sends. \<^verbatim>\<open>getTeams\<close>, \<^verbatim>\<open>getTeamMembership\<close> and \<^verbatim>\<open>getMembersOfOrg\<close>
  are parameters: each gives the answer of the request, or the value its promise rejects
  with. A filter takes the list of the requests sent so far and returns it extended.
\<close>

datatype call =
  GetTeams string
| GetTeamMembership string TeamData
| GetMembersOfOrg string

text \<open>
  \<^verbatim>\<open>await Promise.all(promises)\<close>: all the values in the order of the promises, or a
  rejection. With several rejections the one that settles first is thrown; which one
  that is lies with the scheduler, the parameter \<open>firstSettled\<close> that picks among the
  rejections.
\<close>

definition promiseAll :: "('e list \<Rightarrow> 'e) \<Rightarrow> ('e + 'a) list \<Rightarrow> 'e + 'a list" where
  "promiseAll firstSettled promises =
     (case List.map_filter (\<lambda>p. case p of Inl e \<Rightarrow> Some e | Inr v \<Rightarrow> None) promises of
        [] \<Rightarrow> Inr (List.map_filter (\<lambda>p. case p of Inl e \<Rightarrow> None | Inr v \<Rightarrow> Some v) promises)
      | e # es \<Rightarrow> Inl (firstSettled (e # es)))"

definition filterOwnTeam ::
  "('e list \<Rightarrow> 'e) \<Rightarrow>
   (string \<Rightarrow> 'e + TeamData list) \<Rightarrow> (string \<Rightarrow> TeamData \<Rightarrow> 'e + TeamMembership) \<Rightarrow>
   WhitelistUser list \<Rightarrow> string list \<Rightarrow> string \<Rightarrow> string \<Rightarrow> call list \<Rightarrow>
   ('e + string list) \<times> call list" where
  "filterOwnTeam firstSettled getTeams getTeamMembership users owners creator org calls =
     (if \<not> list_ex (\<lambda>user. skipTeamPrs user) users then (Inr owners, calls)
      else
        (let calls1 = calls @ [GetTeams org]
         in case getTeams org of
              Inl e \<Rightarrow> (Inl e, calls1)
            | Inr allTeams \<Rightarrow>
                (let teamData =
                       filter (\<lambda>team. list_ex (\<lambda>user. skipTeamPrs user \<and>
                                                   user_name user = team_name team) users)
                         allTeams;
                     calls2 = calls1 @ map (\<lambda>teamInfo. GetTeamMembership creator teamInfo) teamData;
                     promises = map (\<lambda>teamInfo. getTeamMembership creator teamInfo) teamData
                 in case promiseAll firstSettled promises of
                      Inl e \<Rightarrow> (Inl e, calls2)
                    | Inr allMemberships \<Rightarrow>
                        (let teamMemberships =
                               filter (\<lambda>membership. state membership = ''active'') allMemberships
                         in (Inr (filter
                                    (\<lambda>owner. List.find (\<lambda>membership. owner = member_name membership)
                                               teamMemberships = None)
                                    owners),
                             calls2)))))"

definition filterPrivateRepo ::
  "(string \<Rightarrow> 'e + string list) \<Rightarrow> string list \<Rightarrow> string \<Rightarrow> call list \<Rightarrow>
   ('e + string list) \<times> call list" where
  "filterPrivateRepo getMembersOfOrg owners org calls =
     (let calls1 = calls @ [GetMembersOfOrg org]
      in case getMembersOfOrg org of
           Inl e \<Rightarrow> (Inl e, calls1)
         | Inr currentMembers \<Rightarrow>
             (Inr (filter (\<lambda>owner. list_ex (\<lambda>member. member = owner) currentMembers) owners),
              calls1))"

text \<open>
  One sort an engine may run, an insertion sort by the comparator; it stands for
  \<open>sortFn\<close> where a concrete one is needed.
\<close>

fun insertBy :: "('a \<Rightarrow> 'a \<Rightarrow> int) \<Rightarrow> 'a \<Rightarrow> 'a list \<Rightarrow> 'a list" where
  "insertBy cmp x [] = [x]"
| "insertBy cmp x (y # ys) = (if cmp x y \<le> 0 then x # y # ys else y # insertBy cmp x ys)"

definition insertionSort :: "('a \<Rightarrow> 'a \<Rightarrow> int) \<Rightarrow> 'a list \<Rightarrow> 'a list" where
  "insertionSort cmp xs = foldr (insertBy cmp) xs []"

section \<open>Facts about the string helpers\<close>

lemma startsWith_Nil: "startsWith s [] = True"
  by (simp add: startsWith_def)

lemma startsWith_Cons:
  "startsWith s (c # p) = (case s of [] \<Rightarrow> False | x # t \<Rightarrow> x = c \<and> startsWith t p)"
  by (cases s) (auto simp: startsWith_def)

lemma startsWith_firstLine:
  assumes "CHR 0x0A \<notin> set p"
  shows "startsWith (takeWhile (\<lambda>c. c \<noteq> CHR 0x0A) s) p = startsWith s p"
  using assms
proof (induction p arbitrary: s)
  case Nil
  then show ?case by (simp add: startsWith_Nil)
next
  case (Cons c p)
  then show ?case by (cases s) (auto simp: startsWith_Cons)
qed

lemma hunkHeader_startsWith:
  assumes "hunkHeader line = Some from_line"
  shows "startsWith line ''@@ -''"
  using assms by (auto simp: hunkHeader_def stripPrefix_def split: if_splits option.splits)

lemma startsWith_differ:
  assumes "startsWith s (c # p)" and "c \<noteq> d"
  shows "\<not> startsWith s (d # q)"
  using assms by (cases s) (auto simp: startsWith_Cons)

section \<open>Facts about the hunk loop\<close>

lemma parseHunks_next_file:
  "startsWith line ''diff --git'' \<Longrightarrow> parseHunks c d (line # lines) = (d, line # lines)"
  by simp

lemma parseHunks_header:
  assumes "hunkHeader line = Some from_line"
  shows "parseHunks c d (line # lines) = parseHunks (toNumber from_line) d lines"
proof -
  from assms have at: "startsWith line ''@@ -''" by (rule hunkHeader_startsWith)
  then have "startsWith line ''@@''" "\<not> startsWith line ''diff --git''"
    by (cases line; auto simp: startsWith_Cons startsWith_Nil split: list.splits)+
  with assms show ?thesis by simp
qed

lemma parseHunks_skipped:
  assumes "startsWith line ''@@''" and "hunkHeader line = None"
  shows "parseHunks c d (line # lines) = parseHunks c d lines"
proof -
  from assms(1) have "\<not> startsWith line ''diff --git''"
    by (auto dest: startsWith_differ)
  with assms show ?thesis by simp
qed

lemma parseHunks_minus:
  assumes "startsWith line ''-''"
  shows "parseHunks c d (line # lines) = parseHunks (increment c) (d @ [c]) lines"
proof -
  from assms have "\<not> startsWith line ''diff --git''" "\<not> startsWith line ''@@''"
    "\<not> startsWith line ''+''"
    by (auto dest: startsWith_differ)
  with assms show ?thesis by simp
qed

lemma parseHunks_plus:
  assumes "startsWith line ''+''"
  shows "parseHunks c d (line # lines) = parseHunks c d lines"
proof -
  from assms have "\<not> startsWith line ''diff --git''" "\<not> startsWith line ''@@''"
    "\<not> startsWith line ''-''"
    by (auto dest: startsWith_differ)
  with assms show ?thesis by simp
qed

lemma parseHunks_other:
  assumes "\<not> startsWith line ''diff --git''" and "\<not> startsWith line ''@@''"
    and "\<not> startsWith line ''-''" and "\<not> startsWith line ''+''"
  shows "parseHunks c d (line # lines) = parseHunks (increment c) d lines"
  using assms by simp

lemma parseHunks_suffix: "suffix (snd (parseHunks c d ls)) ls"
proof (induction ls arbitrary: c d)
  case Nil
  then show ?case by simp
next
  case (Cons l ls)
  have step: "suffix (snd (parseHunks c' d' ls)) (l # ls)" for c' d'
    using Cons.IH [of c' d'] by (rule suffix_ConsI)
  show ?case
    by (simp add: Let_def step split: option.splits)
qed

lemma parseDiffFile_suffix:
  assumes "parseDiffFile ls = Inr (f, rest)"
  shows "suffix rest ls"
proof -
  have h: "suffix b xs" if "parseHunks c d xs = (a, b)" for c d xs a b
    using parseHunks_suffix [of c d xs] that by simp
  obtain l1 l2 ls2 where ls: "ls = l1 # l2 # ls2"
    using assms by (auto simp: parseDiffFile_def Let_def split: list.splits if_splits)
  have t: "suffix xs (tl ls2) \<Longrightarrow> suffix xs ls2" for xs
    by (metis suffix_order.trans suffix_tl)
  show ?thesis
    using assms unfolding ls
    by (auto simp: parseDiffFile_def Let_def suffix_ConsI
             split: list.splits if_splits prod.splits
             dest!: h intro!: suffix_ConsI t)
qed

declare parseHunks.simps(2) [simp del]

lemma line_cases:
  obtains (next_file) "startsWith line ''diff --git''"
  | (header) from_line where "hunkHeader line = Some from_line"
  | (skipped) "startsWith line ''@@''" "hunkHeader line = None"
  | (minus) "startsWith line ''-''"
  | (plus) "startsWith line ''+''"
  | (other) "\<not> startsWith line ''diff --git''" "\<not> startsWith line ''@@''"
      "\<not> startsWith line ''-''" "\<not> startsWith line ''+''"
  by (cases "hunkHeader line") blast+

section \<open>Facts about the numbers\<close>

lemma bitLength_le:
  "n < 2 ^ k \<Longrightarrow> bitLength n \<le> k"
proof (induction k arbitrary: n)
  case 0
  then show ?case by (simp add: bitLength.simps)
next
  case (Suc k)
  show ?case
  proof (cases "n = 0")
    case True
    then show ?thesis by (simp add: bitLength.simps)
  next
    case False
    from Suc.prems have "n div 2 < 2 ^ k" by simp
    then have "bitLength (n div 2) \<le> k" by (rule Suc.IH)
    with False show ?thesis by (subst bitLength.simps) simp
  qed
qed

lemma bitLength_lower:
  "0 < n \<Longrightarrow> 2 ^ (bitLength n - 1) \<le> n"
proof (induction n rule: bitLength.induct)
  case (1 n)
  show ?case
  proof (cases "n div 2 = 0")
    case True
    with "1.prems" have "bitLength n = 1"
      by (subst bitLength.simps) (simp add: bitLength.simps)
    with "1.prems" show ?thesis by simp
  next
    case False
    with "1.prems" "1.IH" have IH: "2 ^ (bitLength (n div 2) - 1) \<le> n div 2" by simp
    from False have pos: "0 < bitLength (n div 2)"
      by (subst bitLength.simps) simp
    from "1.prems" have "bitLength n = Suc (bitLength (n div 2))"
      by (subst bitLength.simps) simp
    then have "2 ^ (bitLength n - 1) = 2 * 2 ^ (bitLength (n div 2) - 1)"
      using pos by (cases "bitLength (n div 2)") simp_all
    also have "\<dots> \<le> 2 * (n div 2)" using IH by simp
    also have "\<dots> \<le> n" by simp
    finally show ?thesis .
  qed
qed

lemma toDouble_exact:
  assumes "n < 2 ^ 53"
  shows "toDouble n = enat n"
proof -
  from assms have "bitLength n \<le> 53" by (rule bitLength_le)
  moreover from this have "bitLength n \<le> 1024" by simp
  ultimately show ?thesis by (simp add: toDouble_def)
qed

lemma bitLength_power: "bitLength (2 ^ k) = Suc k"
  by (induction k) (simp_all add: bitLength.simps)

lemma toDouble_2_53: "toDouble (2 ^ 53) = enat (2 ^ 53)"
proof -
  have b: "bitLength (2 ^ 53) = 54" using bitLength_power [of 53] by simp
  have "(2::nat) ^ 53 div 2 = 2 ^ 52" by simp
  then show ?thesis
    using bitLength_power [of 53] by (simp add: toDouble_def b)
qed

lemma increment_exact:
  assumes "c < 2 ^ 53"
  shows "increment (enat c) = enat (c + 1)"
proof (cases "c + 1 < 2 ^ 53")
  case True
  then show ?thesis by (simp add: increment_def toDouble_exact)
next
  case False
  with assms have "c + 1 = 2 ^ 53" by simp
  then show ?thesis using toDouble_2_53 by (simp add: increment_def)
qed

lemma toDouble_nonzero:
  assumes "0 < n"
  shows "toDouble n \<noteq> 0"
proof -
  define e where "e = bitLength n - 53"
  define q where "q = n div 2 ^ e"
  have "e \<le> bitLength n - 1" by (simp add: e_def)
  then have "(2::nat) ^ e \<le> 2 ^ (bitLength n - 1)" by (rule power_increasing) simp
  also have "\<dots> \<le> n" using assms by (rule bitLength_lower)
  finally have "0 < q" by (simp add: q_def div_greater_zero_iff)
  then have "0 < (if 2 ^ e < 2 * (n mod 2 ^ e) \<or> (2 * (n mod 2 ^ e) = 2 ^ e \<and> odd q) then q + 1 else q) * 2 ^ e"
    by simp
  then show ?thesis
    unfolding toDouble_def Let_def e_def [symmetric] q_def [symmetric]
    by (auto simp: zero_enat_def)
qed

lemma increment_nonzero: "increment x \<noteq> 0"
  by (cases x) (simp_all add: increment_def toDouble_nonzero)

lemma decimal_snoc:
  "foldl (\<lambda>n c. 10 * n + digitValue c) 0 (ds @ [d]) =
   10 * foldl (\<lambda>n c. 10 * n + digitValue c) 0 ds + digitValue d"
  by simp

lemma decimal_sum:
  "foldl (\<lambda>n c. 10 * n + digitValue c) 0 ds =
   (\<Sum>i < length ds. digitValue (ds ! i) * 10 ^ (length ds - Suc i))"
proof (induction ds rule: rev_induct)
  case Nil
  then show ?case by simp
next
  case (snoc d ds)
  have "(\<Sum>i < length ds. digitValue ((ds @ [d]) ! i) * 10 ^ (length (ds @ [d]) - Suc i)) =
        (\<Sum>i < length ds. 10 * (digitValue (ds ! i) * 10 ^ (length ds - Suc i)))"
  proof (rule sum.cong)
    fix i assume "i \<in> {..<length ds}"
    then have "length ds - i = Suc (length ds - Suc i)" by auto
    then show "digitValue ((ds @ [d]) ! i) * 10 ^ (length (ds @ [d]) - Suc i) =
               10 * (digitValue (ds ! i) * 10 ^ (length ds - Suc i))"
      using \<open>i \<in> {..<length ds}\<close> by (simp add: nth_append)
  qed simp
  also have "\<dots> = 10 * (\<Sum>i < length ds. digitValue (ds ! i) * 10 ^ (length ds - Suc i))"
    by (simp add: sum_distrib_left)
  finally show ?case
    using snoc.IH by (simp add: nth_append)
qed

lemma toNumber_rounded: "toNumber ''9007199254740993'' = 9007199254740992"
  by (simp add: toNumber_def digitValue_def toDouble_def bitLength.simps numeral_eq_enat)

lemma increment_stalls: "increment 9007199254740992 = 9007199254740992"
  by (simp add: increment_def toDouble_def bitLength.simps numeral_eq_enat)

lemma digitValue_digits: "map digitValue ''0123456789'' = [0, 1, 2, 3, 4, 5, 6, 7, 8, 9]"
  by (simp add: digitValue_def)

lemma toNumber_decimal:
  "toNumber ds = toDouble (\<Sum>i < length ds. digitValue (ds ! i) * 10 ^ (length ds - Suc i))"
  by (simp only: toNumber_def decimal_sum)

section \<open>Facts about hunk headers\<close>

lemma digits_then:
  assumes "\<forall>ch \<in> set ds. isDigit ch" and "\<not> isDigit x"
  shows "takeWhile isDigit (ds @ x # xs) = ds" and "dropWhile isDigit (ds @ x # xs) = x # xs"
  using assms by (simp_all add: takeWhile_append2 dropWhile_append2)

lemma count_part:
  assumes "\<forall>ch \<in> set b. isDigit ch" and "cnt = [] \<or> cnt = '','' @ b" and "\<not> isDigit x"
    and "x \<noteq> CHR '',''"
  shows "dropWhile isDigit (optComma (cnt @ x # xs)) = x # xs"
proof -
  have comma: "\<not> isDigit (CHR '','')" by (simp add: isDigit_def)
  from assms(2) show ?thesis
  proof
    assume "cnt = []"
    then show ?thesis using assms(3,4) by (simp add: optComma_def)
  next
    assume "cnt = '','' @ b"
    then show ?thesis
      using digits_then(2) [OF assms(1) assms(3)] by (simp add: optComma_def)
  qed
qed

lemma hunkHeader_shape:
  assumes "a \<noteq> []" and "c \<noteq> []"
    and "\<forall>ch \<in> set (a @ b @ c @ d). isDigit ch"
    and "cnt1 = [] \<or> cnt1 = '','' @ b" and "cnt2 = [] \<or> cnt2 = '','' @ d"
  shows "hunkHeader (''@@ -'' @ a @ cnt1 @ '' +'' @ c @ cnt2 @ '' @@'' @ rest) = Some a"
proof -
  have comma: "\<not> isDigit (CHR '','')" and blank: "\<not> isDigit (CHR '' '')"
    by (simp_all add: isDigit_def)
  have differ: "CHR '' '' \<noteq> CHR '',''" by simp
  from assms(3) have da: "\<forall>ch \<in> set a. isDigit ch" and db: "\<forall>ch \<in> set b. isDigit ch"
    and dc: "\<forall>ch \<in> set c. isDigit ch" and dd: "\<forall>ch \<in> set d. isDigit ch"
    by auto
  define tail1 where "tail1 = cnt1 @ '' +'' @ c @ cnt2 @ '' @@'' @ rest"
  define tail2 where "tail2 = cnt2 @ '' @@'' @ rest"
  have first1: "tail1 \<noteq> [] \<and> \<not> isDigit (hd tail1)"
    using assms(4) comma blank by (auto simp: tail1_def)
  have first2: "tail2 \<noteq> [] \<and> \<not> isDigit (hd tail2)"
    using assms(5) comma blank by (auto simp: tail2_def)
  have strip: "stripPrefix ''@@ -'' (''@@ -'' @ a @ tail1) = Some (a @ tail1)"
    by (simp add: stripPrefix_def startsWith_def)
  have from_line: "takeWhile isDigit (a @ tail1) = a"
    and rest1: "dropWhile isDigit (a @ tail1) = tail1"
    using first1 da by (cases tail1; simp add: takeWhile_append2 dropWhile_append2)+
  have after1: "dropWhile isDigit (optComma tail1) = '' +'' @ c @ tail2"
    unfolding tail1_def tail2_def
    using count_part [OF db assms(4) blank differ, of "''+'' @ c @ cnt2 @ '' @@'' @ rest"] by simp
  have strip2: "stripPrefix '' +'' ('' +'' @ c @ tail2) = Some (c @ tail2)"
    by (simp add: stripPrefix_def startsWith_def)
  have to_line: "takeWhile isDigit (c @ tail2) = c"
    and rest2: "dropWhile isDigit (c @ tail2) = tail2"
    using first2 dc by (cases tail2; simp add: takeWhile_append2 dropWhile_append2)+
  have after2: "dropWhile isDigit (optComma tail2) = '' @@'' @ rest"
    unfolding tail2_def
    using count_part [OF dd assms(5) blank differ, of "''@@'' @ rest"] by simp
  have closing: "startsWith ('' @@'' @ rest) '' @@''"
    by (simp add: startsWith_def)
  have "hunkHeader (''@@ -'' @ a @ tail1) = Some a"
    unfolding hunkHeader_def strip option.case Let_def from_line rest1 after1 strip2 to_line
      rest2 after2
    using assms(1,2) closing by simp
  then show ?thesis by (simp add: tail1_def)
qed

lemma stripPrefix_Some:
  assumes "stripPrefix p s = Some t"
  shows "s = p @ t"
proof -
  from assms have "take (length p) s = p" and "t = drop (length p) s"
    by (auto simp: stripPrefix_def startsWith_def split: if_splits)
  then show ?thesis by (metis append_take_drop_id)
qed

lemma optComma_count:
  assumes "u = [] \<or> \<not> isDigit (hd u)"
  shows "\<exists>cnt b. (\<forall>ch \<in> set b. isDigit ch) \<and> (cnt = [] \<or> cnt = '','' @ b) \<and>
                 u = cnt @ dropWhile isDigit (optComma u)"
proof (cases "\<exists>cs. u = CHR '','' # cs")
  case True
  then obtain cs where u: "u = CHR '','' # cs" by blast
  have "(\<forall>ch \<in> set (takeWhile isDigit cs). isDigit ch) \<and>
        ('','' @ takeWhile isDigit cs = [] \<or>
         '','' @ takeWhile isDigit cs = '','' @ takeWhile isDigit cs) \<and>
        u = ('','' @ takeWhile isDigit cs) @ dropWhile isDigit (optComma u)"
    using u by (auto simp: optComma_def dest: set_takeWhileD)
  then show ?thesis by blast
next
  case False
  then have "optComma u = u"
    by (cases u) (auto simp: optComma_def)
  moreover from assms have "dropWhile isDigit u = u"
    by (cases u) auto
  ultimately have "(\<forall>ch \<in> set []. isDigit ch) \<and> ([] = [] \<or> [] = '','' @ []) \<and>
        u = [] @ dropWhile isDigit (optComma u)"
    by simp
  then show ?thesis by blast
qed

lemma dropWhile_first: "dropWhile P xs = [] \<or> \<not> P (hd (dropWhile P xs))"
  by (metis hd_dropWhile)

lemma hunkHeader_Some:
  assumes "hunkHeader line = Some a"
  shows "\<exists>b c d cnt1 cnt2 rest.
           a \<noteq> [] \<and> c \<noteq> [] \<and> (\<forall>ch \<in> set (a @ b @ c @ d). isDigit ch) \<and>
           (cnt1 = [] \<or> cnt1 = '','' @ b) \<and> (cnt2 = [] \<or> cnt2 = '','' @ d) \<and>
           line = ''@@ -'' @ a @ cnt1 @ '' +'' @ c @ cnt2 @ '' @@'' @ rest"
proof -
  from assms obtain t where t: "stripPrefix ''@@ -'' line = Some t"
    by (auto simp: hunkHeader_def split: option.splits)
  define u where "u = dropWhile isDigit t"
  define t1 where "t1 = dropWhile isDigit (optComma u)"
  from assms t have a: "a = takeWhile isDigit t" and a_ne: "a \<noteq> []"
    by (auto simp: hunkHeader_def Let_def split: option.splits if_splits)
  from assms t a_ne obtain t2 where t2: "stripPrefix '' +'' t1 = Some t2"
    by (auto simp: hunkHeader_def Let_def t1_def u_def split: option.splits if_splits)
  define c where "c = takeWhile isDigit t2"
  define u2 where "u2 = dropWhile isDigit t2"
  define t3 where "t3 = dropWhile isDigit (optComma u2)"
  from assms t t2 have c_ne: "c \<noteq> []" and closing: "startsWith t3 '' @@''"
    by (auto simp: hunkHeader_def Let_def t1_def u_def c_def t3_def u2_def
        split: option.splits if_splits)
  from closing have "stripPrefix '' @@'' t3 = Some (drop (length '' @@'') t3)"
    by (simp add: stripPrefix_def)
  then have t3_eq: "t3 = '' @@'' @ drop (length '' @@'') t3" by (rule stripPrefix_Some)
  have line: "line = ''@@ -'' @ t" using t by (rule stripPrefix_Some)
  have t_eq: "t = a @ u" by (simp add: a u_def)
  have t1_eq: "t1 = '' +'' @ t2" using t2 by (rule stripPrefix_Some)
  have t2_eq: "t2 = c @ u2" by (simp add: c_def u2_def)
  have "u = [] \<or> \<not> isDigit (hd u)" unfolding u_def by (rule dropWhile_first)
  from optComma_count [OF this] obtain cnt1 b where b: "\<forall>ch \<in> set b. isDigit ch"
    and cnt1: "cnt1 = [] \<or> cnt1 = '','' @ b" and u_eq: "u = cnt1 @ t1"
    unfolding t1_def by blast
  have "u2 = [] \<or> \<not> isDigit (hd u2)" unfolding u2_def by (rule dropWhile_first)
  from optComma_count [OF this] obtain cnt2 d where d: "\<forall>ch \<in> set d. isDigit ch"
    and cnt2: "cnt2 = [] \<or> cnt2 = '','' @ d" and u2_eq: "u2 = cnt2 @ t3"
    unfolding t3_def by blast
  have da: "\<forall>ch \<in> set a. isDigit ch" unfolding a by (auto dest: set_takeWhileD)
  have dc: "\<forall>ch \<in> set c. isDigit ch" unfolding c_def by (auto dest: set_takeWhileD)
  have digits: "\<forall>ch \<in> set (a @ b @ c @ d). isDigit ch"
    using da b dc d by auto
  have "line = ''@@ -'' @ a @ cnt1 @ '' +'' @ c @ cnt2 @ '' @@'' @ drop (length '' @@'') t3"
    by (simp only: line t_eq u_eq t1_eq t2_eq u2_eq t3_eq [symmetric] append_assoc)
  with a_ne c_ne digits cnt1 cnt2 show ?thesis by blast
qed

lemma hunkHeader_iff:
  "hunkHeader line = Some a \<longleftrightarrow>
     (\<exists>b c d cnt1 cnt2 rest.
        a \<noteq> [] \<and> c \<noteq> [] \<and> (\<forall>ch \<in> set (a @ b @ c @ d). isDigit ch) \<and>
        (cnt1 = [] \<or> cnt1 = '','' @ b) \<and> (cnt2 = [] \<or> cnt2 = '','' @ d) \<and>
        line = ''@@ -'' @ a @ cnt1 @ '' +'' @ c @ cnt2 @ '' @@'' @ rest)"
proof
  assume "hunkHeader line = Some a"
  then show "\<exists>b c d cnt1 cnt2 rest.
        a \<noteq> [] \<and> c \<noteq> [] \<and> (\<forall>ch \<in> set (a @ b @ c @ d). isDigit ch) \<and>
        (cnt1 = [] \<or> cnt1 = '','' @ b) \<and> (cnt2 = [] \<or> cnt2 = '','' @ d) \<and>
        line = ''@@ -'' @ a @ cnt1 @ '' +'' @ c @ cnt2 @ '' @@'' @ rest"
    by (rule hunkHeader_Some)
next
  assume "\<exists>b c d cnt1 cnt2 rest.
        a \<noteq> [] \<and> c \<noteq> [] \<and> (\<forall>ch \<in> set (a @ b @ c @ d). isDigit ch) \<and>
        (cnt1 = [] \<or> cnt1 = '','' @ b) \<and> (cnt2 = [] \<or> cnt2 = '','' @ d) \<and>
        line = ''@@ -'' @ a @ cnt1 @ '' +'' @ c @ cnt2 @ '' @@'' @ rest"
  then obtain b c d cnt1 cnt2 rest where shape: "a \<noteq> []" "c \<noteq> []"
    "\<forall>ch \<in> set (a @ b @ c @ d). isDigit ch" "cnt1 = [] \<or> cnt1 = '','' @ b"
    "cnt2 = [] \<or> cnt2 = '','' @ d"
    and line: "line = ''@@ -'' @ a @ cnt1 @ '' +'' @ c @ cnt2 @ '' @@'' @ rest"
    by (elim exE conjE) (rule that; assumption)
  from shape show "hunkHeader line = Some a"
    unfolding line by (rule hunkHeader_shape)
qed

section \<open>Facts about the hunks of one file\<close>

lemma parseHunks_rest:
  "snd (parseHunks x deleted lines) = dropWhile (\<lambda>line. \<not> startsWith line ''diff --git'') lines"
proof (induction lines arbitrary: x deleted)
  case Nil
  then show ?case by simp
next
  case (Cons l ls)
  show ?case
  proof (cases l rule: line_cases)
    case next_file
    then show ?thesis by (simp add: parseHunks_next_file)
  next
    case (header from_line)
    then have "\<not> startsWith l ''diff --git''"
      using hunkHeader_startsWith [OF header]
      by (auto simp: startsWith_Cons split: list.splits)
    then show ?thesis by (simp add: parseHunks_header [OF header] Cons.IH)
  next
    case skipped
    then have "\<not> startsWith l ''diff --git''" by (auto dest: startsWith_differ)
    then show ?thesis by (simp add: parseHunks_skipped [OF skipped] Cons.IH)
  next
    case minus
    then have "\<not> startsWith l ''diff --git''" by (auto dest: startsWith_differ)
    then show ?thesis by (simp add: parseHunks_minus [OF minus] Cons.IH)
  next
    case plus
    then have "\<not> startsWith l ''diff --git''" by (auto dest: startsWith_differ)
    then show ?thesis by (simp add: parseHunks_plus [OF plus] Cons.IH)
  next
    case other
    then show ?thesis by (simp add: parseHunks_other [OF other] Cons.IH)
  qed
qed

lemma parseDiffFile_section:
  assumes "startsWith header ''diff --git a/''"
    and "head = [header, index] \<and>
           \<not> (startsWith index ''deleted file'' \<or> startsWith index ''new file'') \<or>
         head = [header, mode, index] \<and>
           (startsWith mode ''deleted file'' \<or> startsWith mode ''new file'')"
    and "startsWith marker ''--- ''" and "startsWith plusLine ''+++ ''"
  shows "parseDiffFile (head @ marker # plusLine # section) =
           Inr (\<lparr>path = fromFileOf header, deletedLines = fst (parseHunks 0 [] section)\<rparr>,
                snd (parseHunks 0 [] section))"
proof -
  from assms(3) have "marker \<noteq> []" "\<not> startsWith marker ''diff --git''"
    "\<not> startsWith marker ''Binary files''"
    by (auto simp: startsWith_Cons split: list.splits)
  with assms show ?thesis
    by (auto simp: parseDiffFile_def split: prod.splits)
qed

lemma parseHunks_minus_exact:
  assumes "startsWith line ''-''" and "n < 2 ^ 53"
  shows "parseHunks (enat n) deleted (line # lines) =
         parseHunks (enat (n + 1)) (deleted @ [enat n]) lines"
  by (simp only: parseHunks_minus [OF assms(1)] increment_exact [OF assms(2)])

lemma parseHunks_other_exact:
  assumes "\<not> startsWith line ''diff --git''" and "\<not> startsWith line ''@@''"
    and "\<not> startsWith line ''-''" and "\<not> startsWith line ''+''" and "n < 2 ^ 53"
  shows "parseHunks (enat n) deleted (line # lines) = parseHunks (enat (n + 1)) deleted lines"
  by (simp only: parseHunks_other [OF assms(1-4)] increment_exact [OF assms(5)])

lemma worked_example:
  "parseDiff
     (''diff --git a/foo.js b/foo.js'' @ [CHR 0x0A] @
      ''index 83db48f..bf269c4 100644'' @ [CHR 0x0A] @
      ''--- a/foo.js'' @ [CHR 0x0A] @
      ''+++ b/foo.js'' @ [CHR 0x0A] @
      ''@@ -1,3 +1,3 @@'' @ [CHR 0x0A] @
      '' line1'' @ [CHR 0x0A] @
      ''-line2'' @ [CHR 0x0A] @
      ''+line2 modified'' @ [CHR 0x0A] @
      '' line3'') =
   Inr [\<lparr>path = ''foo.js'', deletedLines = [2]\<rparr>]"
  by code_simp

section \<open>The hunk loop\<close>

text \<open>
  C1. Two ways in which a line of a hunk does not move the cursor as stated. A line that
  starts with \<^verbatim>\<open>@@\<close> and is no hunk header is skipped: it starts with neither
  \<^verbatim>\<open>-\<close> nor \<^verbatim>\<open>+\<close> and the cursor stays, so the \<^verbatim>\<open>-\<close> line after
  \<^verbatim>\<open>@@ note\<close> is recorded as line 1 and not as line 2. And the cursor is a double:
  from \<open>2\<^sup>5\<^sup>3\<close> on, \<^verbatim>\<open>currentFromLine++\<close> gives the same number again, so two
  \<^verbatim>\<open>-\<close> lines in a row are recorded with the same number.
\<close>

theorem parseDiff_cursor_not_advanced:
  "parseDiff
     (''diff --git a/foo.js b/foo.js'' @ [CHR 0x0A] @
      ''index 83db48f..bf269c4 100644'' @ [CHR 0x0A] @
      ''--- a/foo.js'' @ [CHR 0x0A] @
      ''+++ b/foo.js'' @ [CHR 0x0A] @
      ''@@ -1,3 +1,3 @@'' @ [CHR 0x0A] @
      ''@@ note'' @ [CHR 0x0A] @
      ''-line1'') =
   Inr [\<lparr>path = ''foo.js'', deletedLines = [1]\<rparr>] \<and>
   parseDiff
     (''diff --git a/foo.js b/foo.js'' @ [CHR 0x0A] @
      ''index 83db48f..bf269c4 100644'' @ [CHR 0x0A] @
      ''--- a/foo.js'' @ [CHR 0x0A] @
      ''+++ b/foo.js'' @ [CHR 0x0A] @
      ''@@ -9007199254740992,2 +9007199254740992,0 @@'' @ [CHR 0x0A] @
      ''-line1'' @ [CHR 0x0A] @
      ''-line2'') =
   Inr [\<lparr>path = ''foo.js'', deletedLines = [9007199254740992, 9007199254740992]\<rparr>]"
proof
  show "parseDiff
     (''diff --git a/foo.js b/foo.js'' @ [CHR 0x0A] @
      ''index 83db48f..bf269c4 100644'' @ [CHR 0x0A] @
      ''--- a/foo.js'' @ [CHR 0x0A] @
      ''+++ b/foo.js'' @ [CHR 0x0A] @
      ''@@ -1,3 +1,3 @@'' @ [CHR 0x0A] @
      ''@@ note'' @ [CHR 0x0A] @
      ''-line1'') =
   Inr [\<lparr>path = ''foo.js'', deletedLines = [1]\<rparr>]"
    by code_simp
next
  let ?text = "''diff --git a/foo.js b/foo.js'' @ [CHR 0x0A] @
      ''index 83db48f..bf269c4 100644'' @ [CHR 0x0A] @
      ''--- a/foo.js'' @ [CHR 0x0A] @
      ''+++ b/foo.js'' @ [CHR 0x0A] @
      ''@@ -9007199254740992,2 +9007199254740992,0 @@'' @ [CHR 0x0A] @
      ''-line1'' @ [CHR 0x0A] @
      ''-line2''"
  let ?header = "''@@ -9007199254740992,2 +9007199254740992,0 @@''"
  let ?hunks = "[?header, ''-line1'', ''-line2'']"
  let ?block = "[''diff --git a/foo.js b/foo.js'', ''index 83db48f..bf269c4 100644''] @
                ''--- a/foo.js'' # ''+++ b/foo.js'' # ?hunks"
  have recognised: "?text \<noteq> [] \<and> startsWith ?text ''diff''"
    by (simp add: startsWith_def)
  have lines: "split (CHR 0x0A) (trim ?text) = ?block"
    by code_simp
  have from_line: "hunkHeader ?header = Some ''9007199254740992''"
    by code_simp
  have start: "toNumber ''9007199254740992'' = 9007199254740992"
    by (simp add: toNumber_def digitValue_def toDouble_def bitLength.simps numeral_eq_enat)
  have stalls: "increment 9007199254740992 = 9007199254740992"
    by (simp add: increment_def toDouble_def bitLength.simps numeral_eq_enat)
  have minus: "startsWith ''-line1'' ''-''" "startsWith ''-line2'' ''-''"
    by (simp_all add: startsWith_def)
  have "parseHunks 0 [] ?hunks = parseHunks 9007199254740992 [] [''-line1'', ''-line2'']"
    by (simp only: parseHunks_header [OF from_line] start)
  also have "\<dots> = parseHunks 9007199254740992 ([] @ [9007199254740992]) [''-line2'']"
    by (simp only: parseHunks_minus [OF minus(1)] stalls)
  also have "\<dots> = parseHunks 9007199254740992
                      (([] @ [9007199254740992]) @ [9007199254740992]) []"
    by (simp only: parseHunks_minus [OF minus(2)] stalls)
  also have "\<dots> = ([9007199254740992, 9007199254740992], [])"
    by simp
  finally have hunks: "parseHunks 0 [] ?hunks = ([9007199254740992, 9007199254740992], [])" .
  have path: "fromFileOf ''diff --git a/foo.js b/foo.js'' = ''foo.js''"
    by code_simp
  have "parseDiffFile ?block =
          Inr (\<lparr>path = fromFileOf ''diff --git a/foo.js b/foo.js'',
                deletedLines = fst (parseHunks 0 [] ?hunks)\<rparr>,
               snd (parseHunks 0 [] ?hunks))"
    by (rule parseDiffFile_section [where index = "''index 83db48f..bf269c4 100644''"])
       (simp_all add: startsWith_def)
  then have block: "parseDiffFile ?block =
          Inr (\<lparr>path = ''foo.js'', deletedLines = [9007199254740992, 9007199254740992]\<rparr>, [])"
    by (simp only: hunks path fst_conv snd_conv)
  have "parseFiles ?block [] =
          Inr [\<lparr>path = ''foo.js'', deletedLines = [9007199254740992, 9007199254740992]\<rparr>]"
    by (subst parseFiles.simps, simp only: block, subst parseFiles.simps) simp
  with recognised lines show "parseDiff ?text =
          Inr [\<lparr>path = ''foo.js'', deletedLines = [9007199254740992, 9007199254740992]\<rparr>]"
    by (simp only: parseDiff_def simp_thms if_False)
qed

text \<open>
  C1, as the code has it. In the hunk loop the end of the input and a line starting with
  \<^verbatim>\<open>diff --git\<close> end the file. A hunk header sets the cursor to the number value of its
  minus-side start: the header \<^verbatim>\<open>@@ -a[,b] +c[,d] @@\<close> with digit strings \<open>a\<close>, \<open>b\<close>,
  \<open>c\<close>, \<open>d\<close> has the start \<open>a\<close>, whose value is the double nearest to the decimal
  number \<open>a\<close>, the number itself below \<open>2\<^sup>5\<^sup>3\<close>. Any other line starting with
  \<^verbatim>\<open>@@\<close> is skipped. With the cursor at \<open>n < 2\<^sup>5\<^sup>3\<close>, a line starting with
  \<^verbatim>\<open>-\<close> records \<open>n\<close> and moves the cursor to \<open>n + 1\<close>, and a line that starts with
  none of \<^verbatim>\<open>diff --git\<close>, \<^verbatim>\<open>@@\<close>, \<^verbatim>\<open>-\<close>, \<^verbatim>\<open>+\<close> moves the cursor to \<open>n + 1\<close> and
  records nothing; a line starting with \<^verbatim>\<open>+\<close> changes nothing. The deleted lines of a
  file are what this loop records, from the cursor 0, on the lines after the
  \<^verbatim>\<open>+++\<close> line. The worked example gives one file, \<^verbatim>\<open>foo.js\<close>, with the deleted
  line 2.
\<close>

theorem parseHunks_cursor:
  "parseHunks x deleted [] = (deleted, []) \<and>
   (startsWith line ''diff --git'' \<longrightarrow>
      parseHunks x deleted (line # lines) = (deleted, line # lines)) \<and>
   (hunkHeader line = Some from_line \<longrightarrow>
      parseHunks x deleted (line # lines) = parseHunks (toNumber from_line) deleted lines) \<and>
   (hunkHeader line = Some a \<longleftrightarrow>
      (\<exists>b c d cnt1 cnt2 rest.
         a \<noteq> [] \<and> c \<noteq> [] \<and> (\<forall>ch \<in> set (a @ b @ c @ d). isDigit ch) \<and>
         (cnt1 = [] \<or> cnt1 = '','' @ b) \<and> (cnt2 = [] \<or> cnt2 = '','' @ d) \<and>
         line = ''@@ -'' @ a @ cnt1 @ '' +'' @ c @ cnt2 @ '' @@'' @ rest)) \<and>
   toNumber a = toDouble (\<Sum>i < length a. digitValue (a ! i) * 10 ^ (length a - Suc i)) \<and>
   map digitValue ''0123456789'' = [0, 1, 2, 3, 4, 5, 6, 7, 8, 9] \<and>
   (n < 2 ^ 53 \<longrightarrow> toDouble n = enat n) \<and>
   (startsWith line ''@@'' \<and> hunkHeader line = None \<longrightarrow>
      parseHunks x deleted (line # lines) = parseHunks x deleted lines) \<and>
   (startsWith line ''-'' \<and> n < 2 ^ 53 \<longrightarrow>
      parseHunks (enat n) deleted (line # lines) =
        parseHunks (enat (n + 1)) (deleted @ [enat n]) lines) \<and>
   (startsWith line ''+'' \<longrightarrow>
      parseHunks x deleted (line # lines) = parseHunks x deleted lines) \<and>
   (\<not> startsWith line ''diff --git'' \<and> \<not> startsWith line ''@@'' \<and>
    \<not> startsWith line ''-'' \<and> \<not> startsWith line ''+'' \<and> n < 2 ^ 53 \<longrightarrow>
      parseHunks (enat n) deleted (line # lines) = parseHunks (enat (n + 1)) deleted lines) \<and>
   (startsWith header ''diff --git a/'' \<and>
    (head = [header, index] \<and>
       \<not> (startsWith index ''deleted file'' \<or> startsWith index ''new file'') \<or>
     head = [header, mode, index] \<and>
       (startsWith mode ''deleted file'' \<or> startsWith mode ''new file'')) \<and>
    startsWith marker ''--- '' \<and> startsWith plusLine ''+++ '' \<longrightarrow>
      parseDiffFile (head @ marker # plusLine # hunks) =
        Inr (\<lparr>path = fromFileOf header, deletedLines = fst (parseHunks 0 [] hunks)\<rparr>,
             snd (parseHunks 0 [] hunks))) \<and>
   parseDiff
     (''diff --git a/foo.js b/foo.js'' @ [CHR 0x0A] @
      ''index 83db48f..bf269c4 100644'' @ [CHR 0x0A] @
      ''--- a/foo.js'' @ [CHR 0x0A] @
      ''+++ b/foo.js'' @ [CHR 0x0A] @
      ''@@ -1,3 +1,3 @@'' @ [CHR 0x0A] @
      '' line1'' @ [CHR 0x0A] @
      ''-line2'' @ [CHR 0x0A] @
      ''+line2 modified'' @ [CHR 0x0A] @
      '' line3'') =
   Inr [\<lparr>path = ''foo.js'', deletedLines = [2]\<rparr>]"
  apply (intro conjI impI)
  subgoal by simp
  subgoal by (rule parseHunks_next_file)
  subgoal by (rule parseHunks_header)
  subgoal by (rule hunkHeader_iff)
  subgoal by (rule toNumber_decimal)
  subgoal by (rule digitValue_digits)
  subgoal by (rule toDouble_exact)
  subgoal by (elim conjE) (rule parseHunks_skipped)
  subgoal by (elim conjE) (rule parseHunks_minus_exact)
  subgoal by (rule parseHunks_plus)
  subgoal by (elim conjE) (rule parseHunks_other_exact)
  subgoal by (elim conjE) (rule parseDiffFile_section)
  subgoal by (rule worked_example)
  done

theorem parseHunks_cursor_witness:
  "parseHunks 0 []
     [''@@ -7,3 +9,2 @@ function f'', '' line7'', ''-line8'', ''+added'', ''@@ note'', '' line9'',
      ''diff --git a/x b/x''] =
   ([8], [''diff --git a/x b/x'']) \<and>
   parseDiffFile
     ([''diff --git a/foo.js b/foo.js'', ''index 83db48f..bf269c4 100644''] @
      ''--- a/foo.js'' # ''+++ b/foo.js'' #
      [''@@ -7,3 +9,2 @@ function f'', '' line7'', ''-line8'', ''+added'', ''@@ note'', '' line9'',
       ''diff --git a/x b/x'']) =
   Inr (\<lparr>path = ''foo.js'', deletedLines = [8]\<rparr>, [''diff --git a/x b/x''])"
proof -
  note rules = parseHunks_cursor [THEN conjunct2]
  note on_next_file = rules [THEN conjunct1, rule_format]
  note rules3 = rules [THEN conjunct2]
  note on_header = rules3 [THEN conjunct1, rule_format]
  note rules4 = rules3 [THEN conjunct2]
  note shape = rules4 [THEN conjunct1, rule_format]
  note rules5 = rules4 [THEN conjunct2]
  note decimal = rules5 [THEN conjunct1]
  note rules7 = rules5 [THEN conjunct2, THEN conjunct2]
  note exact = rules7 [THEN conjunct1, rule_format]
  note rules8 = rules7 [THEN conjunct2]
  note on_skipped = rules8 [THEN conjunct1, rule_format]
  note rules9 = rules8 [THEN conjunct2]
  note on_minus = rules9 [THEN conjunct1, rule_format]
  note rules10 = rules9 [THEN conjunct2]
  note on_plus = rules10 [THEN conjunct1, rule_format]
  note rules11 = rules10 [THEN conjunct2]
  note on_other = rules11 [THEN conjunct1, rule_format]
  note in_file = rules11 [THEN conjunct2, THEN conjunct1, rule_format]
  let ?rest = "[''diff --git a/x b/x'']"
  have "''7'' \<noteq> [] \<and> ''9'' \<noteq> [] \<and> (\<forall>ch \<in> set (''7'' @ ''3'' @ ''9'' @ ''2''). isDigit ch) \<and>
        ('',3'' = [] \<or> '',3'' = '','' @ ''3'') \<and> ('',2'' = [] \<or> '',2'' = '','' @ ''2'') \<and>
        ''@@ -7,3 +9,2 @@ function f'' =
          ''@@ -'' @ ''7'' @ '',3'' @ '' +'' @ ''9'' @ '',2'' @ '' @@'' @ '' function f''"
    by (simp add: isDigit_def)
  then have "\<exists>b c d cnt1 cnt2 rest.
        ''7'' \<noteq> [] \<and> c \<noteq> [] \<and> (\<forall>ch \<in> set (''7'' @ b @ c @ d). isDigit ch) \<and>
        (cnt1 = [] \<or> cnt1 = '','' @ b) \<and> (cnt2 = [] \<or> cnt2 = '','' @ d) \<and>
        ''@@ -7,3 +9,2 @@ function f'' =
          ''@@ -'' @ ''7'' @ cnt1 @ '' +'' @ c @ cnt2 @ '' @@'' @ rest"
    by (intro exI)
  then have h: "hunkHeader ''@@ -7,3 +9,2 @@ function f'' = Some ''7''"
    by (rule shape [THEN iffD2])
  have "toNumber ''7'' =
          toDouble (\<Sum>i < length ''7''. digitValue (''7'' ! i) * 10 ^ (length ''7'' - Suc i))"
    by (rule decimal)
  also have "\<dots> = toDouble 7"
    by (simp add: digitValue_def)
  also have "\<dots> = enat 7"
    by (rule exact) simp
  finally have n: "toNumber ''7'' = enat 7" .
  have skipped: "startsWith ''@@ note'' ''@@'' \<and> hunkHeader ''@@ note'' = None"
    by code_simp
  have context_line: "\<not> startsWith l ''diff --git'' \<and> \<not> startsWith l ''@@'' \<and>
           \<not> startsWith l ''-'' \<and> \<not> startsWith l ''+''"
    if "l = '' line7'' \<or> l = '' line9''" for l
    using that by (auto simp: startsWith_def)
  have m: "startsWith ''-line8'' ''-''" by (simp add: startsWith_def)
  have p: "startsWith ''+added'' ''+''" by (simp add: startsWith_def)
  have d: "startsWith ''diff --git a/x b/x'' ''diff --git''" by (simp add: startsWith_def)
  have "parseHunks 0 []
     (''@@ -7,3 +9,2 @@ function f'' #
      '' line7'' # ''-line8'' # ''+added'' # ''@@ note'' # '' line9'' # ?rest) =
    parseHunks (enat 7) []
     ('' line7'' # ''-line8'' # ''+added'' # ''@@ note'' # '' line9'' # ?rest)"
    by (simp only: on_header [OF h] n)
  also have "\<dots> = parseHunks (enat (7 + 1)) []
     (''-line8'' # ''+added'' # ''@@ note'' # '' line9'' # ?rest)"
    by (rule on_other) (simp add: context_line)
  also have "\<dots> = parseHunks (enat (7 + 1 + 1)) ([] @ [enat (7 + 1)])
     (''+added'' # ''@@ note'' # '' line9'' # ?rest)"
    by (rule on_minus) (simp add: m)
  also have "\<dots> = parseHunks (enat (7 + 1 + 1)) ([] @ [enat (7 + 1)])
     (''@@ note'' # '' line9'' # ?rest)"
    by (rule on_plus [OF p])
  also have "\<dots> = parseHunks (enat (7 + 1 + 1)) ([] @ [enat (7 + 1)]) ('' line9'' # ?rest)"
    by (rule on_skipped [OF skipped])
  also have "\<dots> = parseHunks (enat (7 + 1 + 1 + 1)) ([] @ [enat (7 + 1)]) ?rest"
    by (rule on_other) (simp add: context_line)
  also have "\<dots> = ([] @ [enat (7 + 1)], ?rest)"
    by (rule on_next_file [OF d])
  also have "\<dots> = ([8], ?rest)"
    by (simp add: numeral_eq_enat)
  finally have hunks: "parseHunks 0 []
     [''@@ -7,3 +9,2 @@ function f'', '' line7'', ''-line8'', ''+added'', ''@@ note'', '' line9'',
      ''diff --git a/x b/x''] = ([8], ?rest)" .
  have path: "fromFileOf ''diff --git a/foo.js b/foo.js'' = ''foo.js''"
    by code_simp
  have "parseDiffFile
     ([''diff --git a/foo.js b/foo.js'', ''index 83db48f..bf269c4 100644''] @
      ''--- a/foo.js'' # ''+++ b/foo.js'' #
      [''@@ -7,3 +9,2 @@ function f'', '' line7'', ''-line8'', ''+added'', ''@@ note'', '' line9'',
       ''diff --git a/x b/x'']) =
     Inr (\<lparr>path = fromFileOf ''diff --git a/foo.js b/foo.js'',
           deletedLines = fst (parseHunks 0 []
             [''@@ -7,3 +9,2 @@ function f'', '' line7'', ''-line8'', ''+added'', ''@@ note'',
              '' line9'', ''diff --git a/x b/x''])\<rparr>,
          snd (parseHunks 0 []
             [''@@ -7,3 +9,2 @@ function f'', '' line7'', ''-line8'', ''+added'', ''@@ note'',
              '' line9'', ''diff --git a/x b/x'']))"
    by (rule in_file [where index = "''index 83db48f..bf269c4 100644''"])
       (simp add: startsWith_def)
  then have "parseDiffFile
     ([''diff --git a/foo.js b/foo.js'', ''index 83db48f..bf269c4 100644''] @
      ''--- a/foo.js'' # ''+++ b/foo.js'' #
      [''@@ -7,3 +9,2 @@ function f'', '' line7'', ''-line8'', ''+added'', ''@@ note'', '' line9'',
       ''diff --git a/x b/x'']) =
     Inr (\<lparr>path = ''foo.js'', deletedLines = [8]\<rparr>, ?rest)"
    by (simp only: hunks path fst_conv snd_conv)
  with hunks show ?thesis by (rule conjI)
qed

section \<open>Files without hunks\<close>

text \<open>
  C9. A file whose header (and mode line, if there is one) and index line are followed
  by the end of the input, by the \<^verbatim>\<open>diff --git\<close> line of the next file, which stays in the
  input, or by a \<^verbatim>\<open>Binary files\<close> line, gets no deleted lines, and the hunk loop is not
  entered. The binary file \<^verbatim>\<open>x.png\<close> of the example gives the path \<^verbatim>\<open>x.png\<close> and no
  deleted lines.
\<close>

theorem parseDiffFile_no_hunk_body:
  assumes "startsWith header ''diff --git a/''"
    and "pre = [header, index] \<and>
           \<not> (startsWith index ''deleted file'' \<or> startsWith index ''new file'') \<or>
         pre = [header, mode, index] \<and>
           (startsWith mode ''deleted file'' \<or> startsWith mode ''new file'')"
  shows "parseDiffFile pre = Inr (\<lparr>path = fromFileOf header, deletedLines = []\<rparr>, []) \<and>
         (startsWith line ''diff --git'' \<longrightarrow>
            parseDiffFile (pre @ line # lines) =
              Inr (\<lparr>path = fromFileOf header, deletedLines = []\<rparr>, line # lines)) \<and>
         (startsWith line ''Binary files'' \<longrightarrow>
            parseDiffFile (pre @ line # lines) =
              Inr (\<lparr>path = fromFileOf header, deletedLines = []\<rparr>, lines)) \<and>
         parseDiff
           (''diff --git a/x.png b/x.png'' @ [CHR 0x0A] @
            ''index 1f2a3b4..5c6d7e8 100644'' @ [CHR 0x0A] @
            ''Binary files a/x.png and b/x.png differ'') =
         Inr [\<lparr>path = ''x.png'', deletedLines = []\<rparr>]"
proof -
  have absent: "parseDiffFile pre = Inr (\<lparr>path = fromFileOf header, deletedLines = []\<rparr>, [])"
    using assms by (auto simp: parseDiffFile_def)
  have next_file: "parseDiffFile (pre @ line # lines) =
                     Inr (\<lparr>path = fromFileOf header, deletedLines = []\<rparr>, line # lines)"
    if "startsWith line ''diff --git''"
  proof -
    from that have "line \<noteq> []" by (auto simp: startsWith_Cons)
    with that assms show ?thesis by (auto simp: parseDiffFile_def)
  qed
  have binary: "parseDiffFile (pre @ line # lines) =
                  Inr (\<lparr>path = fromFileOf header, deletedLines = []\<rparr>, lines)"
    if "startsWith line ''Binary files''"
  proof -
    from that have "line \<noteq> []" "\<not> startsWith line ''diff --git''"
      by (auto simp: startsWith_Cons split: list.splits)
    with that assms show ?thesis by (auto simp: parseDiffFile_def)
  qed
  have example: "parseDiff
           (''diff --git a/x.png b/x.png'' @ [CHR 0x0A] @
            ''index 1f2a3b4..5c6d7e8 100644'' @ [CHR 0x0A] @
            ''Binary files a/x.png and b/x.png differ'') =
         Inr [\<lparr>path = ''x.png'', deletedLines = []\<rparr>]"
    by code_simp
  show ?thesis
    by (intro conjI impI) (simp_all only: absent next_file binary example simp_thms)
qed


theorem parseDiffFile_no_hunk_body_witness:
  "parseDiffFile
     [''diff --git a/x.png b/x.png'', ''index 1f2a3b4..5c6d7e8 100644'',
      ''Binary files a/x.png and b/x.png differ'', ''diff --git a/y b/y''] =
   Inr (\<lparr>path = ''x.png'', deletedLines = []\<rparr>, [''diff --git a/y b/y'']) \<and>
   parseDiffFile
     [''diff --git a/e.txt b/e.txt'', ''new file mode 100644'', ''index 0000000..e69de29'',
      ''diff --git a/y b/y'', ''index 1..2''] =
   Inr (\<lparr>path = ''e.txt'', deletedLines = []\<rparr>, [''diff --git a/y b/y'', ''index 1..2'']) \<and>
   parseDiffFile
     [''diff --git a/e.txt b/e.txt'', ''new file mode 100644'', ''index 0000000..e69de29''] =
   Inr (\<lparr>path = ''e.txt'', deletedLines = []\<rparr>, [])"
proof -
  have hx: "startsWith ''diff --git a/x.png b/x.png'' ''diff --git a/''"
    and he: "startsWith ''diff --git a/e.txt b/e.txt'' ''diff --git a/''"
    and b: "startsWith ''Binary files a/x.png and b/x.png differ'' ''Binary files''"
    and d: "startsWith ''diff --git a/y b/y'' ''diff --git''"
    by (simp_all add: startsWith_def)
  have px: "fromFileOf ''diff --git a/x.png b/x.png'' = ''x.png''"
    and pe: "fromFileOf ''diff --git a/e.txt b/e.txt'' = ''e.txt''"
    by code_simp+
  have ix: "[''diff --git a/x.png b/x.png'', ''index 1f2a3b4..5c6d7e8 100644''] =
              [''diff --git a/x.png b/x.png'', ''index 1f2a3b4..5c6d7e8 100644''] \<and>
            \<not> (startsWith ''index 1f2a3b4..5c6d7e8 100644'' ''deleted file'' \<or>
               startsWith ''index 1f2a3b4..5c6d7e8 100644'' ''new file'') \<or>
            [''diff --git a/x.png b/x.png'', ''index 1f2a3b4..5c6d7e8 100644''] =
              [''diff --git a/x.png b/x.png'', mode, ''index 1f2a3b4..5c6d7e8 100644''] \<and>
            (startsWith mode ''deleted file'' \<or> startsWith mode ''new file'')" for mode
    by (simp add: startsWith_def)
  have ie: "[''diff --git a/e.txt b/e.txt'', ''new file mode 100644'', ''index 0000000..e69de29''] =
              [''diff --git a/e.txt b/e.txt'', index] \<and>
            \<not> (startsWith index ''deleted file'' \<or> startsWith index ''new file'') \<or>
            [''diff --git a/e.txt b/e.txt'', ''new file mode 100644'', ''index 0000000..e69de29''] =
              [''diff --git a/e.txt b/e.txt'', ''new file mode 100644'', ''index 0000000..e69de29''] \<and>
            (startsWith ''new file mode 100644'' ''deleted file'' \<or>
             startsWith ''new file mode 100644'' ''new file'')" for index
    by (simp add: startsWith_def)
  note x = parseDiffFile_no_hunk_body [OF hx ix]
  note e = parseDiffFile_no_hunk_body [OF he ie]
  have "parseDiffFile
     ([''diff --git a/x.png b/x.png'', ''index 1f2a3b4..5c6d7e8 100644''] @
      ''Binary files a/x.png and b/x.png differ'' # [''diff --git a/y b/y'']) =
     Inr (\<lparr>path = fromFileOf ''diff --git a/x.png b/x.png'', deletedLines = []\<rparr>,
          [''diff --git a/y b/y''])"
    by (rule x [THEN conjunct2, THEN conjunct2, THEN conjunct1, rule_format, OF b])
  moreover have "parseDiffFile
     ([''diff --git a/e.txt b/e.txt'', ''new file mode 100644'', ''index 0000000..e69de29''] @
      ''diff --git a/y b/y'' # [''index 1..2'']) =
     Inr (\<lparr>path = fromFileOf ''diff --git a/e.txt b/e.txt'', deletedLines = []\<rparr>,
          [''diff --git a/y b/y'', ''index 1..2''])"
    by (rule e [THEN conjunct2, THEN conjunct1, rule_format, OF d])
  moreover have "parseDiffFile
     [''diff --git a/e.txt b/e.txt'', ''new file mode 100644'', ''index 0000000..e69de29''] =
     Inr (\<lparr>path = fromFileOf ''diff --git a/e.txt b/e.txt'', deletedLines = []\<rparr>, [])"
    by (rule e [THEN conjunct1])
  ultimately show ?thesis
    unfolding px pe by simp
qed

section \<open>Input that is no diff\<close>

text \<open>
  C5. \<^verbatim>\<open>parseDiff\<close> of the empty string, and of any text whose first line does not start
  with \<^verbatim>\<open>diff\<close>, is the empty sequence of files; nothing is thrown.
\<close>

theorem parseDiff_unrecognized:
  assumes "diff = [] \<or> \<not> startsWith (takeWhile (\<lambda>c. c \<noteq> CHR 0x0A) diff) ''diff''"
  shows "parseDiff diff = Inr []"
proof -
  have "startsWith (takeWhile (\<lambda>c. c \<noteq> CHR 0x0A) diff) ''diff'' = startsWith diff ''diff''"
    by (rule startsWith_firstLine) simp
  with assms show ?thesis by (auto simp: parseDiff_def)
qed

theorem parseDiff_unrecognized_witness:
  "parseDiff [] = Inr [] \<and> parseDiff ''not a diff'' = Inr []"
proof -
  have a: "([]::string) = [] \<or> \<not> startsWith (takeWhile (\<lambda>c. c \<noteq> CHR 0x0A) []) ''diff''"
    by simp
  have b: "''not a diff'' = [] \<or>
           \<not> startsWith (takeWhile (\<lambda>c. c \<noteq> CHR 0x0A) ''not a diff'') ''diff''"
    by (simp add: startsWith_def)
  show ?thesis
    using parseDiff_unrecognized [OF a] parseDiff_unrecognized [OF b] by simp
qed

section \<open>Malformed diffs\<close>

lemma parseFiles_failure_reached:
  assumes "blocks \<noteq> []"
    and "successively (\<lambda>block rest. \<exists>file. parseDiffFile block = Inr (file, rest)) blocks"
    and "last blocks \<noteq> []" and "parseDiffFile (last blocks) = Inl e"
  shows "parseFiles (hd blocks) acc = Inl e"
  using assms
proof (induction blocks arbitrary: acc)
  case Nil
  then show ?case by simp
next
  case (Cons block blocks)
  show ?case
  proof (cases blocks)
    case Nil
    with Cons.prems show ?thesis by (subst parseFiles.simps) simp
  next
    case (Cons next_block more)
    with Cons.prems(2) obtain f where step: "parseDiffFile block = Inr (f, next_block)"
      and rest: "successively (\<lambda>block rest. \<exists>file. parseDiffFile block = Inr (file, rest)) blocks"
      by auto
    from step have "block \<noteq> []" by (auto simp: parseDiffFile_def)
    moreover have "parseFiles (hd blocks) (acc @ [f]) = Inl e"
      using Cons.prems(3,4) Cons rest by (intro Cons.IH) simp_all
    ultimately show ?thesis
      using step Cons by (subst parseFiles.simps) simp
  qed
qed

lemma parseFiles_reaches_failure:
  assumes "parseFiles ls acc = Inl e"
  shows "\<exists>blocks. blocks \<noteq> [] \<and> hd blocks = ls \<and>
           successively (\<lambda>block rest. \<exists>file. parseDiffFile block = Inr (file, rest)) blocks \<and>
           last blocks \<noteq> [] \<and> parseDiffFile (last blocks) = Inl e"
  using assms
proof (induction ls acc rule: parseFiles.induct)
  case (1 lines acc)
  from "1.prems" have nonempty: "lines \<noteq> []"
    by (subst (asm) parseFiles.simps) (auto split: if_splits)
  show ?case
  proof (cases "parseDiffFile lines")
    case (Inl e')
    with nonempty "1.prems" have "e' = e"
      by (subst (asm) parseFiles.simps) simp
    with Inl nonempty show ?thesis
      by (intro exI [of _ "[lines]"]) simp
  next
    case (Inr r)
    obtain f rest where r: "r = (f, rest)" by (cases r)
    with Inr nonempty "1.prems" have loop: "parseFiles rest (acc @ [f]) = Inl e"
      by (subst (asm) parseFiles.simps) simp
    from Inr r have block: "parseDiffFile lines = Inr (f, rest)" by simp
    from "1.IH" [OF nonempty block refl loop]
    obtain blocks where "blocks \<noteq> []" "hd blocks = rest"
      "successively (\<lambda>block rest. \<exists>file. parseDiffFile block = Inr (file, rest)) blocks"
      "last blocks \<noteq> []" "parseDiffFile (last blocks) = Inl e"
      by blast
    with block show ?thesis
      by (intro exI [of _ "lines # blocks"]) (cases blocks; auto)
  qed
qed

text \<open>
  C6. The first line of a file is only checked for the start \<^verbatim>\<open>diff --git a/\<close>: a header
  without its \<^verbatim>\<open>b/\<close> half is accepted, the whole line becomes the path and nothing is
  thrown.
\<close>

theorem parseDiff_header_without_b:
  "gitHeaderSplit ''foo'' = None \<and>
   parseDiff (''diff --git a/foo'' @ [CHR 0x0A] @ ''index 83db48f..bf269c4 100644'') =
   Inr [\<lparr>path = ''diff --git a/foo'', deletedLines = []\<rparr>]"
  by code_simp

text \<open>
  C6, as the code has it. \<^verbatim>\<open>parseDiffFile\<close> throws an \<^verbatim>\<open>Error\<close> in exactly two cases: the
  first line of the file does not start with \<^verbatim>\<open>diff --git a/\<close>, or the line after the index
  line starts with \<^verbatim>\<open>--- \<close> and the line after that one does not start with \<^verbatim>\<open>+++ \<close>.
  \<^verbatim>\<open>parseDiff\<close> throws an error exactly when the text starts with \<^verbatim>\<open>diff\<close> and its loop,
  which parses one file after the other, each from the lines the one before has left,
  comes to a file that throws this error; no sequence of files is returned then.
\<close>

theorem parseDiff_invalid_line:
  "(parseDiffFile ls = Inl (Error msg) \<longleftrightarrow>
     (\<exists>line rest. ls = line # rest \<and> \<not> startsWith line ''diff --git a/'' \<and>
        Error msg = invalidDiffLine line) \<or>
     (\<exists>header index marker line rest.
        ls = header # index # marker # line # rest \<and>
        startsWith header ''diff --git a/'' \<and>
        \<not> (startsWith index ''deleted file'' \<or> startsWith index ''new file'') \<and>
        startsWith marker ''--- '' \<and> \<not> startsWith line ''+++ '' \<and>
        Error msg = invalidPlusLine line) \<or>
     (\<exists>header mode index marker line rest.
        ls = header # mode # index # marker # line # rest \<and>
        startsWith header ''diff --git a/'' \<and>
        (startsWith mode ''deleted file'' \<or> startsWith mode ''new file'') \<and>
        startsWith marker ''--- '' \<and> \<not> startsWith line ''+++ '' \<and>
        Error msg = invalidPlusLine line)) \<and>
   (parseDiff diff = Inl e \<longleftrightarrow>
      startsWith diff ''diff'' \<and>
      (\<exists>blocks. blocks \<noteq> [] \<and> hd blocks = split (CHR 0x0A) (trim diff) \<and>
         successively (\<lambda>block rest. \<exists>file. parseDiffFile block = Inr (file, rest)) blocks \<and>
         last blocks \<noteq> [] \<and> parseDiffFile (last blocks) = Inl e))"
  (is "(?lhs \<longleftrightarrow> ?a \<or> ?b \<or> ?c) \<and> ?loop")
proof (intro conjI)
  show "?lhs \<longleftrightarrow> ?a \<or> ?b \<or> ?c"
  proof
    assume ?lhs
    then obtain l1 ls1 where ls: "ls = l1 # ls1"
      by (cases ls) (auto simp: parseDiffFile_def)
    show "?a \<or> ?b \<or> ?c"
    proof (cases "startsWith l1 ''diff --git a/''")
      case False
      with \<open>?lhs\<close> have "?a" by (simp add: ls parseDiffFile_def)
      then show ?thesis ..
    next
      case True
      with \<open>?lhs\<close> obtain l2 ls2 where ls1: "ls1 = l2 # ls2"
        by (cases ls1) (auto simp: ls parseDiffFile_def)
      show ?thesis
      proof (cases "startsWith l2 ''deleted file'' \<or> startsWith l2 ''new file''")
        case False
        with True \<open>?lhs\<close> have "?b"
          unfolding ls ls1
          by (auto simp: parseDiffFile_def Let_def split: list.splits if_splits prod.splits)
        then show ?thesis by blast
      next
        case mode: True
        with True \<open>?lhs\<close> have "?c"
          unfolding ls ls1
          by (cases ls2) (auto simp: parseDiffFile_def Let_def split: list.splits if_splits prod.splits)
        then show ?thesis by blast
      qed
    qed
  next
    assume "?a \<or> ?b \<or> ?c"
    then consider ?a | ?b | ?c by blast
    then show ?lhs
    proof cases
      case 1
      then show ?thesis by (auto simp: parseDiffFile_def)
    next
      case 2
      then obtain header index marker line rest where
        "ls = header # index # marker # line # rest" "startsWith header ''diff --git a/''"
        "\<not> (startsWith index ''deleted file'' \<or> startsWith index ''new file'')"
        "startsWith marker ''--- ''" "\<not> startsWith line ''+++ ''" "Error msg = invalidPlusLine line"
        by blast
      moreover from this(4) have "marker \<noteq> []" "\<not> startsWith marker ''diff --git''"
        "\<not> startsWith marker ''Binary files''"
        by (auto simp: startsWith_Cons split: list.splits)
      ultimately show ?thesis by (simp add: parseDiffFile_def)
    next
      case 3
      then obtain header mode index marker line rest where
        "ls = header # mode # index # marker # line # rest" "startsWith header ''diff --git a/''"
        "startsWith mode ''deleted file'' \<or> startsWith mode ''new file''"
        "startsWith marker ''--- ''" "\<not> startsWith line ''+++ ''" "Error msg = invalidPlusLine line"
        by blast
      moreover from this(4) have "marker \<noteq> []" "\<not> startsWith marker ''diff --git''"
        "\<not> startsWith marker ''Binary files''"
        by (auto simp: startsWith_Cons split: list.splits)
      ultimately show ?thesis by (simp add: parseDiffFile_def)
    qed
  qed

  show ?loop
  proof
    assume failed: "parseDiff diff = Inl e"
    then have recognised: "startsWith diff ''diff''"
      and "parseFiles (split (CHR 0x0A) (trim diff)) [] = Inl e"
      by (auto simp: parseDiff_def split: if_splits)
    from parseFiles_reaches_failure [OF this(2)] recognised
    show "startsWith diff ''diff'' \<and>
      (\<exists>blocks. blocks \<noteq> [] \<and> hd blocks = split (CHR 0x0A) (trim diff) \<and>
         successively (\<lambda>block rest. \<exists>file. parseDiffFile block = Inr (file, rest)) blocks \<and>
         last blocks \<noteq> [] \<and> parseDiffFile (last blocks) = Inl e)"
      by blast
  next
    assume "startsWith diff ''diff'' \<and>
      (\<exists>blocks. blocks \<noteq> [] \<and> hd blocks = split (CHR 0x0A) (trim diff) \<and>
         successively (\<lambda>block rest. \<exists>file. parseDiffFile block = Inr (file, rest)) blocks \<and>
         last blocks \<noteq> [] \<and> parseDiffFile (last blocks) = Inl e)"
    then obtain blocks where recognised: "startsWith diff ''diff''"
      and chain: "blocks \<noteq> []" "hd blocks = split (CHR 0x0A) (trim diff)"
        "successively (\<lambda>block rest. \<exists>file. parseDiffFile block = Inr (file, rest)) blocks"
        "last blocks \<noteq> []" "parseDiffFile (last blocks) = Inl e"
      by blast
    from recognised have "diff \<noteq> []" by (auto simp: startsWith_def)
    moreover have "parseFiles (hd blocks) [] = Inl e"
      using chain(1,3,4,5) by (rule parseFiles_failure_reached)
    ultimately show "parseDiff diff = Inl e"
      using recognised chain(2) by (simp add: parseDiff_def)
  qed
qed

theorem parseDiff_invalid_line_witness:
  "parseDiff
     (''diff --git a/a.js b/a.js'' @ [CHR 0x0A] @
      ''index 83db48f..bf269c4 100644'' @ [CHR 0x0A] @
      ''--- a/a.js'' @ [CHR 0x0A] @
      ''+++ b/a.js'' @ [CHR 0x0A] @
      ''@@ -1,2 +1,1 @@'' @ [CHR 0x0A] @
      '' line1'' @ [CHR 0x0A] @
      ''-line2'' @ [CHR 0x0A] @
      ''diff --git a/b.js b/b.js'' @ [CHR 0x0A] @
      ''index 1111111..2222222 100644'' @ [CHR 0x0A] @
      ''--- a/b.js'' @ [CHR 0x0A] @
      ''@@ -1 +1 @@'') =
   Inl (invalidPlusLine ''@@ -1 +1 @@'')"
proof -
  let ?text = "''diff --git a/a.js b/a.js'' @ [CHR 0x0A] @
      ''index 83db48f..bf269c4 100644'' @ [CHR 0x0A] @
      ''--- a/a.js'' @ [CHR 0x0A] @
      ''+++ b/a.js'' @ [CHR 0x0A] @
      ''@@ -1,2 +1,1 @@'' @ [CHR 0x0A] @
      '' line1'' @ [CHR 0x0A] @
      ''-line2'' @ [CHR 0x0A] @
      ''diff --git a/b.js b/b.js'' @ [CHR 0x0A] @
      ''index 1111111..2222222 100644'' @ [CHR 0x0A] @
      ''--- a/b.js'' @ [CHR 0x0A] @
      ''@@ -1 +1 @@''"
  let ?second = "[''diff --git a/b.js b/b.js'', ''index 1111111..2222222 100644'',
                  ''--- a/b.js'', ''@@ -1 +1 @@'']"
  let ?first = "[''diff --git a/a.js b/a.js'', ''index 83db48f..bf269c4 100644'', ''--- a/a.js'',
                 ''+++ b/a.js'', ''@@ -1,2 +1,1 @@'', '' line1'', ''-line2''] @ ?second"
  obtain msg where msg: "Error msg = invalidPlusLine ''@@ -1 +1 @@''"
    by (simp add: invalidPlusLine_def)
  have recognised: "startsWith ?text ''diff''"
    by (simp add: startsWith_def)
  have lines: "split (CHR 0x0A) (trim ?text) = ?first"
    by code_simp
  have parsed: "parseDiffFile ?first = Inr (\<lparr>path = ''a.js'', deletedLines = [2]\<rparr>, ?second)"
    by code_simp
  have shape: "\<exists>header index marker line rest.
        ?second = header # index # marker # line # rest \<and>
        startsWith header ''diff --git a/'' \<and>
        \<not> (startsWith index ''deleted file'' \<or> startsWith index ''new file'') \<and>
        startsWith marker ''--- '' \<and> \<not> startsWith line ''+++ '' \<and>
        Error msg = invalidPlusLine line"
    using msg by (simp add: startsWith_def)
  have thrown: "parseDiffFile ?second = Inl (Error msg)"
    using parseDiff_invalid_line [where ls = ?second and msg = msg, THEN conjunct1] shape
    by blast
  have "startsWith ?text ''diff'' \<and>
      (\<exists>blocks. blocks \<noteq> [] \<and> hd blocks = split (CHR 0x0A) (trim ?text) \<and>
         successively (\<lambda>block rest. \<exists>file. parseDiffFile block = Inr (file, rest)) blocks \<and>
         last blocks \<noteq> [] \<and> parseDiffFile (last blocks) = Inl (Error msg))"
    using recognised lines parsed thrown
    by (intro conjI exI [of _ "[?first, ?second]"]) simp_all
  then have "parseDiff ?text = Inl (Error msg)"
    by (rule parseDiff_invalid_line [where diff = ?text and e = "Error msg",
          THEN conjunct2, THEN iffD2])
  then show ?thesis by (simp only: msg)
qed

section \<open>The numbers of the deleted lines\<close>

lemma split_first:
  "(\<exists>pre h tail. l # ls = pre @ h # tail \<and> (\<forall>p \<in> set pre. R p) \<and> S h tail) \<longleftrightarrow>
   S l ls \<or> R l \<and> (\<exists>pre h tail. ls = pre @ h # tail \<and> (\<forall>p \<in> set pre. R p) \<and> S h tail)"
  (is "?lhs \<longleftrightarrow> ?rhs")
proof
  assume ?lhs
  then obtain pre h tail where eq: "l # ls = pre @ h # tail"
    and pre: "\<forall>p \<in> set pre. R p" and found: "S h tail"
    by blast
  show ?rhs
  proof (cases pre)
    case Nil
    with eq found show ?thesis by simp
  next
    case (Cons p pre')
    with eq pre have "R l" "ls = pre' @ h # tail" "\<forall>p \<in> set pre'. R p" by simp_all
    with found show ?thesis by blast
  qed
next
  assume ?rhs
  then show ?lhs
  proof
    assume "S l ls"
    then have "l # ls = [] @ l # ls \<and> (\<forall>p \<in> set []. R p) \<and> S l ls" by simp
    then show ?lhs by blast
  next
    assume "R l \<and> (\<exists>pre h tail. ls = pre @ h # tail \<and> (\<forall>p \<in> set pre. R p) \<and> S h tail)"
    then obtain pre h tail where "R l" "ls = pre @ h # tail" "\<forall>p \<in> set pre. R p" "S h tail"
      by blast
    then have "l # ls = (l # pre) @ h # tail \<and> (\<forall>p \<in> set (l # pre). R p) \<and> S h tail"
      by simp
    then show ?lhs by blast
  qed
qed

lemma split_first_Nil:
  "\<not> (\<exists>pre h tail. [] = pre @ h # tail \<and> (\<forall>p \<in> set pre. R p) \<and> S h tail)"
  by simp

lemma enat_one_le: "(1 \<le> (n::enat)) = (n \<noteq> 0)"
  by (cases n) (auto simp: one_enat_def zero_enat_def)

lemma parseHunks_zero:
  "0 \<in> set (fst (parseHunks x deleted lines)) \<longleftrightarrow>
     0 \<in> set deleted \<or>
     x = 0 \<and>
       (\<exists>mid line rest. lines = mid @ line # rest \<and>
          (\<forall>l \<in> set mid. startsWith l ''+'' \<or> startsWith l ''@@'' \<and> hunkHeader l = None) \<and>
          startsWith line ''-'') \<or>
     (\<exists>pre header tail. lines = pre @ header # tail \<and>
        (\<forall>l \<in> set pre. \<not> startsWith l ''diff --git'') \<and>
        (\<exists>from_line. hunkHeader header = Some from_line \<and> toNumber from_line = 0) \<and>
        (\<exists>mid line rest. tail = mid @ line # rest \<and>
           (\<forall>l \<in> set mid. startsWith l ''+'' \<or> startsWith l ''@@'' \<and> hunkHeader l = None) \<and>
           startsWith line ''-''))"
proof (induction lines arbitrary: x deleted)
  case Nil
  show ?case by simp
next
  case (Cons l ls)
  let ?skip = "\<lambda>l. startsWith l ''+'' \<or> startsWith l ''@@'' \<and> hunkHeader l = None"
  let ?A = "\<lambda>ls. \<exists>mid line rest. ls = mid @ line # rest \<and> (\<forall>l \<in> set mid. ?skip l) \<and>
                  startsWith line ''-''"
  let ?zero = "\<lambda>h. \<exists>from_line. hunkHeader h = Some from_line \<and> toNumber from_line = 0"
  let ?B = "\<lambda>ls. \<exists>pre header tail. ls = pre @ header # tail \<and>
                  (\<forall>l \<in> set pre. \<not> startsWith l ''diff --git'') \<and> ?zero header \<and> ?A tail"
  have A: "?A (l # ls) \<longleftrightarrow> startsWith l ''-'' \<or> ?skip l \<and> ?A ls"
    by (rule split_first [where S = "\<lambda>line rest. startsWith line ''-''"])
  have B: "?B (l # ls) \<longleftrightarrow> ?zero l \<and> ?A ls \<or> \<not> startsWith l ''diff --git'' \<and> ?B ls"
    by (rule split_first [where R = "\<lambda>l. \<not> startsWith l ''diff --git''"
          and S = "\<lambda>header tail. ?zero header \<and> ?A tail"])
  note IH = Cons.IH
  show ?case
  proof (cases l rule: line_cases)
    case next_file
    then have "\<not> startsWith l ''-''" "\<not> startsWith l ''+''" "\<not> startsWith l ''@@''"
      by (auto dest: startsWith_differ)
    moreover from next_file have "hunkHeader l = None"
      using hunkHeader_startsWith [of l] startsWith_differ [of l "CHR ''@''" "''@ -''" "CHR ''d''"]
      by (cases "hunkHeader l") auto
    ultimately show ?thesis
      unfolding A B by (simp add: parseHunks_next_file [OF next_file] next_file)
  next
    case (header from_line)
    from hunkHeader_startsWith [OF header]
    have "\<not> startsWith l ''-''" "\<not> startsWith l ''+''" "\<not> startsWith l ''diff --git''"
      by (auto dest: startsWith_differ)
    then show ?thesis
      unfolding A B parseHunks_header [OF header] IH by (auto simp: header)
  next
    case skipped
    then have "\<not> startsWith l ''-''" "\<not> startsWith l ''diff --git''"
      by (auto dest: startsWith_differ)
    with skipped show ?thesis
      unfolding A B parseHunks_skipped [OF skipped] IH by auto
  next
    case minus
    then have "\<not> startsWith l ''diff --git''" and "hunkHeader l = None"
      using hunkHeader_startsWith [of l]
      by (auto dest: startsWith_differ) (cases "hunkHeader l"; auto dest: startsWith_differ)
    with minus show ?thesis
      unfolding A B parseHunks_minus [OF minus] IH by (auto simp: increment_nonzero)
  next
    case plus
    then have "\<not> startsWith l ''-''" "\<not> startsWith l ''diff --git''" and "hunkHeader l = None"
      using hunkHeader_startsWith [of l]
      by (auto dest: startsWith_differ) (cases "hunkHeader l"; auto dest: startsWith_differ)
    with plus show ?thesis
      unfolding A B parseHunks_plus [OF plus] IH by auto
  next
    case other
    then have "hunkHeader l = None"
      using hunkHeader_startsWith [of l]
      by (cases "hunkHeader l") (auto simp: startsWith_Cons startsWith_Nil split: list.splits)
    with other show ?thesis
      unfolding A B parseHunks_other [OF other] IH by (auto simp: increment_nonzero)
  qed
qed

lemma parseDiffFile_hunks_of:
  assumes "parseDiffFile block = Inr (file, rest)"
    and "block = head @ marker # plusLine # hunks"
    and "head = [header, index] \<and>
           \<not> (startsWith index ''deleted file'' \<or> startsWith index ''new file'') \<or>
         head = [header, mode, index] \<and>
           (startsWith mode ''deleted file'' \<or> startsWith mode ''new file'')"
    and "startsWith marker ''--- ''"
  shows "deletedLines file = fst (parseHunks 0 [] hunks)"
proof -
  from assms(4) have "marker \<noteq> []" "\<not> startsWith marker ''diff --git''"
    "\<not> startsWith marker ''Binary files''"
    by (auto simp: startsWith_Cons split: list.splits)
  with assms show ?thesis
    by (auto simp: parseDiffFile_def split: if_splits prod.splits)
qed

lemma parseDiffFile_recorded:
  assumes "parseDiffFile block = Inr (file, rest)" and "deletedLines file \<noteq> []"
  shows "\<exists>header index mode head marker plusLine hunks.
           block = head @ marker # plusLine # hunks \<and>
           (head = [header, index] \<and>
              \<not> (startsWith index ''deleted file'' \<or> startsWith index ''new file'') \<or>
            head = [header, mode, index] \<and>
              (startsWith mode ''deleted file'' \<or> startsWith mode ''new file'')) \<and>
           startsWith marker ''--- ''"
proof -
  obtain l1 l2 ls2 where ls: "block = l1 # l2 # ls2"
    using assms(1) by (auto simp: parseDiffFile_def Let_def split: list.splits if_splits)
  show ?thesis
  proof (cases "startsWith l2 ''deleted file'' \<or> startsWith l2 ''new file''")
    case False
    with assms have "\<exists>marker plusLine hunks. ls2 = marker # plusLine # hunks \<and>
                       startsWith marker ''--- ''"
      unfolding ls
      by (auto simp: parseDiffFile_def Let_def split: list.splits if_splits prod.splits)
    then obtain marker plusLine hunks where
      "block = [l1, l2] @ marker # plusLine # hunks" "startsWith marker ''--- ''"
      by (auto simp: ls)
    with False show ?thesis by blast
  next
    case True
    with assms have "\<exists>index marker plusLine hunks. ls2 = index # marker # plusLine # hunks \<and>
                       startsWith marker ''--- ''"
      unfolding ls
      by (cases ls2)
         (auto simp: parseDiffFile_def Let_def split: list.splits if_splits prod.splits)
    then obtain index marker plusLine hunks where
      "block = [l1, l2, index] @ marker # plusLine # hunks" "startsWith marker ''--- ''"
      by (auto simp: ls)
    with True show ?thesis by blast
  qed
qed

lemma parseFiles_from_blocks:
  assumes "parseFiles ls acc = Inr files"
  shows "\<forall>file \<in> set files. file \<in> set acc \<or>
           (\<exists>block rest. suffix block ls \<and> parseDiffFile block = Inr (file, rest))"
  using assms
proof (induction ls acc rule: parseFiles.induct)
  case (1 lines acc)
  show ?case
  proof (cases "lines = []")
    case True
    with "1.prems" show ?thesis by (simp add: parseFiles.simps)
  next
    case False
    with "1.prems" obtain f rest where block: "parseDiffFile lines = Inr (f, rest)"
      and loop: "parseFiles rest (acc @ [f]) = Inr files"
      by (subst (asm) parseFiles.simps) (auto split: sum.splits)
    from block have sfx: "suffix rest lines" by (rule parseDiffFile_suffix)
    from "1.IH" [OF False block refl loop]
    have IH: "\<forall>file \<in> set files. file \<in> set (acc @ [f]) \<or>
                (\<exists>block rest'. suffix block rest \<and> parseDiffFile block = Inr (file, rest'))" .
    show ?thesis
    proof
      fix g assume "g \<in> set files"
      with IH consider "g \<in> set acc" | "g = f"
        | block' rest' where "suffix block' rest" "parseDiffFile block' = Inr (g, rest')"
        by auto
      then show "g \<in> set acc \<or>
                 (\<exists>block rest. suffix block lines \<and> parseDiffFile block = Inr (g, rest))"
      proof cases
        case 1
        then show ?thesis by simp
      next
        case 2
        with block show ?thesis by blast
      next
        case 3
        from 3(1) sfx have "suffix block' lines" by (rule suffix_order.trans)
        with 3(2) show ?thesis by blast
      qed
    qed
  qed
qed

lemma parseHunks_zero_start:
  "0 \<in> set (fst (parseHunks 0 [] hunks)) \<longleftrightarrow>
     (\<exists>mid line rest. hunks = mid @ line # rest \<and>
          (\<forall>l \<in> set mid. startsWith l ''+'' \<or> startsWith l ''@@'' \<and> hunkHeader l = None) \<and>
          startsWith line ''-'') \<or>
     (\<exists>pre header tail. hunks = pre @ header # tail \<and>
        (\<forall>l \<in> set pre. \<not> startsWith l ''diff --git'') \<and>
        (\<exists>from_line. hunkHeader header = Some from_line \<and> toNumber from_line = 0) \<and>
        (\<exists>mid line rest. tail = mid @ line # rest \<and>
           (\<forall>l \<in> set mid. startsWith l ''+'' \<or> startsWith l ''@@'' \<and> hunkHeader l = None) \<and>
           startsWith line ''-''))"
  by (subst parseHunks_zero) (simp only: list.set empty_iff simp_thms)

text \<open>
  C3. The cursor of a file starts at 0 and a hunk header sets it, so a \<^verbatim>\<open>-\<close> line that
  comes before the first hunk header of its file is recorded as line 0: the numbers
  are not always at least 1.
\<close>

theorem parseDiff_deleted_line_zero:
  "parseDiff
     (''diff --git a/foo.js b/foo.js'' @ [CHR 0x0A] @
      ''index 83db48f..bf269c4 100644'' @ [CHR 0x0A] @
      ''--- a/foo.js'' @ [CHR 0x0A] @
      ''+++ b/foo.js'' @ [CHR 0x0A] @
      ''-line1'') =
   Inr [\<lparr>path = ''foo.js'', deletedLines = [0]\<rparr>]"
  by code_simp

text \<open>
  C3, as the code has it. Every file that \<^verbatim>\<open>parseDiff\<close> returns is the file of a block
  of lines that ends the text. The deleted line numbers of the file of a block are all
  at least 1 exactly when the block has no line 0: no \<^verbatim>\<open>-\<close> line among the lines
  after the \<^verbatim>\<open>+++\<close> line that has, between itself and the \<^verbatim>\<open>+++\<close> line or a hunk header
  with the minus-side start 0, only lines that start with \<^verbatim>\<open>+\<close> and skipped lines that
  start with \<^verbatim>\<open>@@\<close>. A header with the start 0 that no such \<^verbatim>\<open>-\<close> line follows, as
  in a new file, an added line that starts with \<^verbatim>\<open>+++ \<close>, and context lines before
  the first header do no harm.
\<close>

theorem parseDiff_deleted_lines_from_one:
  "(parseDiff diff = Inr files \<longrightarrow>
      (\<forall>file \<in> set files. \<exists>block rest.
          suffix block (split (CHR 0x0A) (trim diff)) \<and> parseDiffFile block = Inr (file, rest))) \<and>
   (parseDiffFile block = Inr (file, rest) \<longrightarrow>
      ((\<forall>n \<in> set (deletedLines file). 1 \<le> n) \<longleftrightarrow>
       \<not> (\<exists>header index mode head marker plusLine hunks.
             block = head @ marker # plusLine # hunks \<and>
             (head = [header, index] \<and>
                \<not> (startsWith index ''deleted file'' \<or> startsWith index ''new file'') \<or>
              head = [header, mode, index] \<and>
                (startsWith mode ''deleted file'' \<or> startsWith mode ''new file'')) \<and>
             startsWith marker ''--- '' \<and>
             ((\<exists>mid line rest'. hunks = mid @ line # rest' \<and>
                 (\<forall>l \<in> set mid. startsWith l ''+'' \<or>
                                   startsWith l ''@@'' \<and> hunkHeader l = None) \<and>
                 startsWith line ''-'') \<or>
              (\<exists>pre hunkLine tail. hunks = pre @ hunkLine # tail \<and>
                 (\<forall>l \<in> set pre. \<not> startsWith l ''diff --git'') \<and>
                 (\<exists>from_line. hunkHeader hunkLine = Some from_line \<and>
                               toNumber from_line = 0) \<and>
                 (\<exists>mid line rest'. tail = mid @ line # rest' \<and>
                    (\<forall>l \<in> set mid. startsWith l ''+'' \<or>
                                      startsWith l ''@@'' \<and> hunkHeader l = None) \<and>
                    startsWith line ''-''))))))"
  (is "?origin \<and> (?parsed \<longrightarrow> (?from_one \<longleftrightarrow> \<not> ?zero_pattern))")
proof (intro conjI impI)
  assume "parseDiff diff = Inr files"
  then have "files = [] \<or> parseFiles (split (CHR 0x0A) (trim diff)) [] = Inr files"
    by (auto simp: parseDiff_def split: if_splits)
  then show "\<forall>file \<in> set files. \<exists>block rest.
          suffix block (split (CHR 0x0A) (trim diff)) \<and> parseDiffFile block = Inr (file, rest)"
  proof
    assume "files = []"
    then show ?thesis by simp
  next
    assume "parseFiles (split (CHR 0x0A) (trim diff)) [] = Inr files"
    from parseFiles_from_blocks [OF this] show ?thesis by simp
  qed
next
  assume parsed: ?parsed
  define recordsZero where "recordsZero = (\<lambda>hunks.
     (\<exists>mid line rest'. hunks = mid @ line # rest' \<and>
         (\<forall>l \<in> set mid. startsWith l ''+'' \<or> startsWith l ''@@'' \<and> hunkHeader l = None) \<and>
         startsWith line ''-'') \<or>
     (\<exists>pre hunkLine tail. hunks = pre @ hunkLine # tail \<and>
         (\<forall>l \<in> set pre. \<not> startsWith l ''diff --git'') \<and>
         (\<exists>from_line. hunkHeader hunkLine = Some from_line \<and> toNumber from_line = 0) \<and>
         (\<exists>mid line rest'. tail = mid @ line # rest' \<and>
            (\<forall>l \<in> set mid. startsWith l ''+'' \<or> startsWith l ''@@'' \<and> hunkHeader l = None) \<and>
            startsWith line ''-'')))"
  define hunksOf where "hunksOf = (\<lambda>hunks. \<exists>header index mode head marker plusLine.
     block = head @ marker # plusLine # hunks \<and>
     (head = [header, index] \<and>
        \<not> (startsWith index ''deleted file'' \<or> startsWith index ''new file'') \<or>
      head = [header, mode, index] \<and>
        (startsWith mode ''deleted file'' \<or> startsWith mode ''new file'')) \<and>
     startsWith marker ''--- '')"
  have zero_iff: "0 \<in> set (fst (parseHunks 0 [] hunks)) \<longleftrightarrow> recordsZero hunks" for hunks
    unfolding recordsZero_def by (rule parseHunks_zero_start)
  have "?zero_pattern \<longleftrightarrow>
        (\<exists>header index mode head marker plusLine hunks.
           block = head @ marker # plusLine # hunks \<and>
           (head = [header, index] \<and>
              \<not> (startsWith index ''deleted file'' \<or> startsWith index ''new file'') \<or>
            head = [header, mode, index] \<and>
              (startsWith mode ''deleted file'' \<or> startsWith mode ''new file'')) \<and>
           startsWith marker ''--- '' \<and> recordsZero hunks)"
    unfolding recordsZero_def by (rule refl)
  also have "\<dots> \<longleftrightarrow> (\<exists>hunks. hunksOf hunks \<and> recordsZero hunks)"
    unfolding hunksOf_def by blast
  finally have pattern_iff: "?zero_pattern \<longleftrightarrow> (\<exists>hunks. hunksOf hunks \<and> recordsZero hunks)" .
  have recorded_by: "deletedLines file = fst (parseHunks 0 [] hunks)" if "hunksOf hunks" for hunks
  proof -
    from that obtain header index mode head marker plusLine where
      "block = head @ marker # plusLine # hunks"
      "head = [header, index] \<and>
         \<not> (startsWith index ''deleted file'' \<or> startsWith index ''new file'') \<or>
       head = [header, mode, index] \<and>
         (startsWith mode ''deleted file'' \<or> startsWith mode ''new file'')"
      "startsWith marker ''--- ''"
      unfolding hunksOf_def by (elim exE conjE) (rule that; assumption)
    with parsed show ?thesis by (rule parseDiffFile_hunks_of)
  qed
  have has_hunks: "\<exists>hunks. hunksOf hunks" if "deletedLines file \<noteq> []"
    using parseDiffFile_recorded [OF parsed that] unfolding hunksOf_def
    by (elim exE) (intro exI, assumption)
  have from_one_iff: "?from_one \<longleftrightarrow> 0 \<notin> set (deletedLines file)"
    by (auto simp: enat_one_le)
  have "0 \<in> set (deletedLines file) \<longleftrightarrow> (\<exists>hunks. hunksOf hunks \<and> recordsZero hunks)"
  proof
    assume recorded: "0 \<in> set (deletedLines file)"
    then have "deletedLines file \<noteq> []" by auto
    then obtain hunks where hunks: "hunksOf hunks" using has_hunks by blast
    with recorded have "0 \<in> set (fst (parseHunks 0 [] hunks))"
      using recorded_by by simp
    then have "recordsZero hunks" by (simp only: zero_iff)
    with hunks show "\<exists>hunks. hunksOf hunks \<and> recordsZero hunks" by blast
  next
    assume "\<exists>hunks. hunksOf hunks \<and> recordsZero hunks"
    then obtain hunks where hunks: "hunksOf hunks" and "recordsZero hunks" by blast
    then have "0 \<in> set (fst (parseHunks 0 [] hunks))" by (simp only: zero_iff)
    with hunks show "0 \<in> set (deletedLines file)" using recorded_by by simp
  qed
  with from_one_iff pattern_iff show "?from_one \<longleftrightarrow> \<not> ?zero_pattern"
    by (simp only:)
qed

theorem parseDiff_deleted_lines_from_one_witness:
  "parseDiffFile
     [''diff --git a/foo.js b/foo.js'', ''index 83db48f..bf269c4 100644'', ''--- a/foo.js'',
      ''+++ b/foo.js'', '' line0'', ''@@ -0,0 +1,1 @@'', ''+++ i;'', ''@@ -5,2 +6,2 @@'',
      ''+++ j;'', ''-line5''] =
   Inr (\<lparr>path = ''foo.js'', deletedLines = [5]\<rparr>, []) \<and>
   list_all (\<lambda>n. 1 \<le> n) (deletedLines \<lparr>path = ''foo.js'', deletedLines = [5]\<rparr>) \<and>
   parseDiffFile
     [''diff --git a/foo.js b/foo.js'', ''index 83db48f..bf269c4 100644'', ''--- a/foo.js'',
      ''+++ b/foo.js'', ''@@ -0,1 +0,0 @@'', ''+++ i;'', ''-line1''] =
   Inr (\<lparr>path = ''foo.js'', deletedLines = [0]\<rparr>, []) \<and>
   \<not> list_all (\<lambda>n. 1 \<le> n) (deletedLines \<lparr>path = ''foo.js'', deletedLines = [0]\<rparr>) \<and>
   (\<exists>block rest.
      suffix block
        (split (CHR 0x0A) (trim
          (''diff --git a/foo.js b/foo.js'' @ [CHR 0x0A] @
           ''index 83db48f..bf269c4 100644'' @ [CHR 0x0A] @
           ''--- a/foo.js'' @ [CHR 0x0A] @
           ''+++ b/foo.js'' @ [CHR 0x0A] @
           ''@@ -0,1 +0,0 @@'' @ [CHR 0x0A] @
           ''+++ i;'' @ [CHR 0x0A] @
           ''-line1''))) \<and>
      parseDiffFile block = Inr (\<lparr>path = ''foo.js'', deletedLines = [0]\<rparr>, rest))"
proof -
  let ?good_hunks = "['' line0'', ''@@ -0,0 +1,1 @@'', ''+++ i;'', ''@@ -5,2 +6,2 @@'',
                      ''+++ j;'', ''-line5'']"
  let ?good = "[''diff --git a/foo.js b/foo.js'', ''index 83db48f..bf269c4 100644'',
                ''--- a/foo.js'', ''+++ b/foo.js''] @ ?good_hunks"
  let ?bad = "[''diff --git a/foo.js b/foo.js'', ''index 83db48f..bf269c4 100644'',
               ''--- a/foo.js'', ''+++ b/foo.js'', ''@@ -0,1 +0,0 @@'', ''+++ i;'', ''-line1'']"
  let ?text = "''diff --git a/foo.js b/foo.js'' @ [CHR 0x0A] @
           ''index 83db48f..bf269c4 100644'' @ [CHR 0x0A] @
           ''--- a/foo.js'' @ [CHR 0x0A] @
           ''+++ b/foo.js'' @ [CHR 0x0A] @
           ''@@ -0,1 +0,0 @@'' @ [CHR 0x0A] @
           ''+++ i;'' @ [CHR 0x0A] @
           ''-line1''"
  let ?five = "\<lparr>path = ''foo.js'', deletedLines = [5]\<rparr>"
  let ?zero = "\<lparr>path = ''foo.js'', deletedLines = [0]\<rparr>"
  note blocks = parseDiff_deleted_lines_from_one [THEN conjunct2, rule_format]
  note origin = parseDiff_deleted_lines_from_one [THEN conjunct1, rule_format]
  have good: "parseDiffFile ?good = Inr (?five, [])"
    by code_simp
  have no_mode: "\<not> (startsWith ''index 83db48f..bf269c4 100644'' ''deleted file'' \<or>
                    startsWith ''index 83db48f..bf269c4 100644'' ''new file'')"
    by (simp add: startsWith_def)
  have computed: "fst (parseHunks 0 [] ?good_hunks) = [5]"
    by code_simp
  have no_zero: "\<not> ((\<exists>mid line rest'. ?good_hunks = mid @ line # rest' \<and>
                 (\<forall>l \<in> set mid. startsWith l ''+'' \<or>
                                   startsWith l ''@@'' \<and> hunkHeader l = None) \<and>
                 startsWith line ''-'') \<or>
              (\<exists>pre hunkLine tail. ?good_hunks = pre @ hunkLine # tail \<and>
                 (\<forall>l \<in> set pre. \<not> startsWith l ''diff --git'') \<and>
                 (\<exists>from_line. hunkHeader hunkLine = Some from_line \<and>
                               toNumber from_line = 0) \<and>
                 (\<exists>mid line rest'. tail = mid @ line # rest' \<and>
                    (\<forall>l \<in> set mid. startsWith l ''+'' \<or>
                                      startsWith l ''@@'' \<and> hunkHeader l = None) \<and>
                    startsWith line ''-'')))"
    using computed by (simp only: parseHunks_zero_start [symmetric]) simp
  have absent: "\<not> (\<exists>header index mode head marker plusLine hunks.
             ?good = head @ marker # plusLine # hunks \<and>
             (head = [header, index] \<and>
                \<not> (startsWith index ''deleted file'' \<or> startsWith index ''new file'') \<or>
              head = [header, mode, index] \<and>
                (startsWith mode ''deleted file'' \<or> startsWith mode ''new file'')) \<and>
             startsWith marker ''--- '' \<and>
             ((\<exists>mid line rest'. hunks = mid @ line # rest' \<and>
                 (\<forall>l \<in> set mid. startsWith l ''+'' \<or>
                                   startsWith l ''@@'' \<and> hunkHeader l = None) \<and>
                 startsWith line ''-'') \<or>
              (\<exists>pre hunkLine tail. hunks = pre @ hunkLine # tail \<and>
                 (\<forall>l \<in> set pre. \<not> startsWith l ''diff --git'') \<and>
                 (\<exists>from_line. hunkHeader hunkLine = Some from_line \<and>
                               toNumber from_line = 0) \<and>
                 (\<exists>mid line rest'. tail = mid @ line # rest' \<and>
                    (\<forall>l \<in> set mid. startsWith l ''+'' \<or>
                                      startsWith l ''@@'' \<and> hunkHeader l = None) \<and>
                    startsWith line ''-''))))"
  proof (intro notI, elim exE conjE)
    fix header index mode head marker plusLine hunks
    assume eq: "?good = head @ marker # plusLine # hunks"
      and head: "head = [header, index] \<and>
                \<not> (startsWith index ''deleted file'' \<or> startsWith index ''new file'') \<or>
              head = [header, mode, index] \<and>
                (startsWith mode ''deleted file'' \<or> startsWith mode ''new file'')"
      and pattern: "(\<exists>mid line rest'. hunks = mid @ line # rest' \<and>
                 (\<forall>l \<in> set mid. startsWith l ''+'' \<or>
                                   startsWith l ''@@'' \<and> hunkHeader l = None) \<and>
                 startsWith line ''-'') \<or>
              (\<exists>pre hunkLine tail. hunks = pre @ hunkLine # tail \<and>
                 (\<forall>l \<in> set pre. \<not> startsWith l ''diff --git'') \<and>
                 (\<exists>from_line. hunkHeader hunkLine = Some from_line \<and>
                               toNumber from_line = 0) \<and>
                 (\<exists>mid line rest'. tail = mid @ line # rest' \<and>
                    (\<forall>l \<in> set mid. startsWith l ''+'' \<or>
                                      startsWith l ''@@'' \<and> hunkHeader l = None) \<and>
                    startsWith line ''-''))"
    from head eq no_mode have "hunks = ?good_hunks"
      by (elim disjE conjE) simp_all
    with pattern no_zero show False by (simp only:)
  qed
  from blocks [OF good] absent
  have "\<forall>n \<in> set (deletedLines ?five). 1 \<le> n" by (simp only: simp_thms)
  then have first: "list_all (\<lambda>n. 1 \<le> n) (deletedLines ?five)"
    by (simp only: list_all_iff simp_thms)
  have bad: "parseDiffFile ?bad = Inr (?zero, [])"
    by code_simp
  have zero_header: "hunkHeader ''@@ -0,1 +0,0 @@'' = Some ''0'' \<and> toNumber ''0'' = 0"
    by code_simp
  have inner: "[''+++ i;'', ''-line1''] = [''+++ i;''] @ ''-line1'' # [] \<and>
            (\<forall>l \<in> set [''+++ i;'']. startsWith l ''+'' \<or>
                                      startsWith l ''@@'' \<and> hunkHeader l = None) \<and>
            startsWith ''-line1'' ''-''"
    by (simp add: startsWith_def)
  have after_header: "\<exists>mid line rest'. [''+++ i;'', ''-line1''] = mid @ line # rest' \<and>
                    (\<forall>l \<in> set mid. startsWith l ''+'' \<or>
                                      startsWith l ''@@'' \<and> hunkHeader l = None) \<and>
                    startsWith line ''-''"
    using inner by (intro exI)
  have from_zero: "\<exists>from_line. hunkHeader ''@@ -0,1 +0,0 @@'' = Some from_line \<and>
                               toNumber from_line = 0"
    using zero_header by (intro exI)
  have outer: "[''@@ -0,1 +0,0 @@'', ''+++ i;'', ''-line1''] =
                 [] @ ''@@ -0,1 +0,0 @@'' # [''+++ i;'', ''-line1''] \<and>
               (\<forall>l \<in> set []. \<not> startsWith l ''diff --git'') \<and>
               (\<exists>from_line. hunkHeader ''@@ -0,1 +0,0 @@'' = Some from_line \<and>
                             toNumber from_line = 0) \<and>
               (\<exists>mid line rest'. [''+++ i;'', ''-line1''] = mid @ line # rest' \<and>
                    (\<forall>l \<in> set mid. startsWith l ''+'' \<or>
                                      startsWith l ''@@'' \<and> hunkHeader l = None) \<and>
                    startsWith line ''-'')"
    using from_zero after_header by (intro conjI) simp_all
  have zero_hunk: "\<exists>pre hunkLine tail.
                 [''@@ -0,1 +0,0 @@'', ''+++ i;'', ''-line1''] = pre @ hunkLine # tail \<and>
                 (\<forall>l \<in> set pre. \<not> startsWith l ''diff --git'') \<and>
                 (\<exists>from_line. hunkHeader hunkLine = Some from_line \<and>
                               toNumber from_line = 0) \<and>
                 (\<exists>mid line rest'. tail = mid @ line # rest' \<and>
                    (\<forall>l \<in> set mid. startsWith l ''+'' \<or>
                                      startsWith l ''@@'' \<and> hunkHeader l = None) \<and>
                    startsWith line ''-'')"
    using outer by (intro exI)
  have marker: "startsWith ''--- a/foo.js'' ''--- ''"
    by (simp add: startsWith_def)
  have shape: "?bad = [''diff --git a/foo.js b/foo.js'', ''index 83db48f..bf269c4 100644''] @
                 ''--- a/foo.js'' # ''+++ b/foo.js'' #
                 [''@@ -0,1 +0,0 @@'', ''+++ i;'', ''-line1'']"
    by simp
  have head_shape:
    "[''diff --git a/foo.js b/foo.js'', ''index 83db48f..bf269c4 100644''] =
       [''diff --git a/foo.js b/foo.js'', ''index 83db48f..bf269c4 100644''] \<and>
       \<not> (startsWith ''index 83db48f..bf269c4 100644'' ''deleted file'' \<or>
          startsWith ''index 83db48f..bf269c4 100644'' ''new file'') \<or>
     [''diff --git a/foo.js b/foo.js'', ''index 83db48f..bf269c4 100644''] =
       [''diff --git a/foo.js b/foo.js'', [], ''index 83db48f..bf269c4 100644''] \<and>
       (startsWith [] ''deleted file'' \<or> startsWith [] ''new file'')"
    using no_mode by (intro disjI1 conjI refl)
  have zero_pattern:
    "(\<exists>mid line rest'.
        [''@@ -0,1 +0,0 @@'', ''+++ i;'', ''-line1''] = mid @ line # rest' \<and>
        (\<forall>l \<in> set mid. startsWith l ''+'' \<or>
                          startsWith l ''@@'' \<and> hunkHeader l = None) \<and>
        startsWith line ''-'') \<or>
     (\<exists>pre hunkLine tail.
        [''@@ -0,1 +0,0 @@'', ''+++ i;'', ''-line1''] = pre @ hunkLine # tail \<and>
        (\<forall>l \<in> set pre. \<not> startsWith l ''diff --git'') \<and>
        (\<exists>from_line. hunkHeader hunkLine = Some from_line \<and>
                      toNumber from_line = 0) \<and>
        (\<exists>mid line rest'. tail = mid @ line # rest' \<and>
           (\<forall>l \<in> set mid. startsWith l ''+'' \<or>
                             startsWith l ''@@'' \<and> hunkHeader l = None) \<and>
           startsWith line ''-''))"
    using zero_hunk by (rule disjI2)
  have instance_of: "?bad = [''diff --git a/foo.js b/foo.js'', ''index 83db48f..bf269c4 100644''] @
                 ''--- a/foo.js'' # ''+++ b/foo.js'' #
                 [''@@ -0,1 +0,0 @@'', ''+++ i;'', ''-line1''] \<and>
             ([''diff --git a/foo.js b/foo.js'', ''index 83db48f..bf269c4 100644''] =
                [''diff --git a/foo.js b/foo.js'', ''index 83db48f..bf269c4 100644''] \<and>
                \<not> (startsWith ''index 83db48f..bf269c4 100644'' ''deleted file'' \<or>
                   startsWith ''index 83db48f..bf269c4 100644'' ''new file'') \<or>
              [''diff --git a/foo.js b/foo.js'', ''index 83db48f..bf269c4 100644''] =
                [''diff --git a/foo.js b/foo.js'', [], ''index 83db48f..bf269c4 100644''] \<and>
                (startsWith [] ''deleted file'' \<or> startsWith [] ''new file'')) \<and>
             startsWith ''--- a/foo.js'' ''--- '' \<and>
             ((\<exists>mid line rest'.
                 [''@@ -0,1 +0,0 @@'', ''+++ i;'', ''-line1''] = mid @ line # rest' \<and>
                 (\<forall>l \<in> set mid. startsWith l ''+'' \<or>
                                   startsWith l ''@@'' \<and> hunkHeader l = None) \<and>
                 startsWith line ''-'') \<or>
              (\<exists>pre hunkLine tail.
                 [''@@ -0,1 +0,0 @@'', ''+++ i;'', ''-line1''] = pre @ hunkLine # tail \<and>
                 (\<forall>l \<in> set pre. \<not> startsWith l ''diff --git'') \<and>
                 (\<exists>from_line. hunkHeader hunkLine = Some from_line \<and>
                               toNumber from_line = 0) \<and>
                 (\<exists>mid line rest'. tail = mid @ line # rest' \<and>
                    (\<forall>l \<in> set mid. startsWith l ''+'' \<or>
                                      startsWith l ''@@'' \<and> hunkHeader l = None) \<and>
                    startsWith line ''-'')))"
    using shape head_shape marker zero_pattern by (intro conjI)
  have present: "\<exists>header index mode head marker plusLine hunks.
             ?bad = head @ marker # plusLine # hunks \<and>
             (head = [header, index] \<and>
                \<not> (startsWith index ''deleted file'' \<or> startsWith index ''new file'') \<or>
              head = [header, mode, index] \<and>
                (startsWith mode ''deleted file'' \<or> startsWith mode ''new file'')) \<and>
             startsWith marker ''--- '' \<and>
             ((\<exists>mid line rest'. hunks = mid @ line # rest' \<and>
                 (\<forall>l \<in> set mid. startsWith l ''+'' \<or>
                                   startsWith l ''@@'' \<and> hunkHeader l = None) \<and>
                 startsWith line ''-'') \<or>
              (\<exists>pre hunkLine tail. hunks = pre @ hunkLine # tail \<and>
                 (\<forall>l \<in> set pre. \<not> startsWith l ''diff --git'') \<and>
                 (\<exists>from_line. hunkHeader hunkLine = Some from_line \<and>
                               toNumber from_line = 0) \<and>
                 (\<exists>mid line rest'. tail = mid @ line # rest' \<and>
                    (\<forall>l \<in> set mid. startsWith l ''+'' \<or>
                                      startsWith l ''@@'' \<and> hunkHeader l = None) \<and>
                    startsWith line ''-'')))"
    using instance_of by (intro exI)
  from blocks [OF bad] present
  have "\<not> (\<forall>n \<in> set (deletedLines ?zero). 1 \<le> n)" by (simp only: simp_thms)
  then have second: "\<not> list_all (\<lambda>n. 1 \<le> n) (deletedLines ?zero)"
    by (simp only: list_all_iff simp_thms)
  have whole: "parseDiff ?text = Inr [?zero]"
    by code_simp
  from origin [OF whole, of ?zero]
  have third: "\<exists>block rest. suffix block (split (CHR 0x0A) (trim ?text)) \<and>
                 parseDiffFile block = Inr (?zero, rest)"
    by simp
  from good have good_block: "parseDiffFile
     [''diff --git a/foo.js b/foo.js'', ''index 83db48f..bf269c4 100644'', ''--- a/foo.js'',
      ''+++ b/foo.js'', '' line0'', ''@@ -0,0 +1,1 @@'', ''+++ i;'', ''@@ -5,2 +6,2 @@'',
      ''+++ j;'', ''-line5''] =
   Inr (?five, [])"
    by (simp only: append.simps)
  from good_block first bad second third show ?thesis
    by (intro conjI)
qed

section \<open>The reviewer filters\<close>

text \<open>
  C7. When no entry of \<open>users\<close> has \<^verbatim>\<open>skipTeamPrs\<close> set, \<^verbatim>\<open>filterOwnTeam\<close> returns \<open>owners\<close>
  as it got them and sends no request: the list of calls is the one it was given.
\<close>

theorem filterOwnTeam_fast_path:
  assumes "\<forall>user \<in> set users. \<not> skipTeamPrs user"
  shows "filterOwnTeam firstSettled getTeams getTeamMembership users owners creator org calls =
         (Inr owners, calls)"
  using assms by (simp add: filterOwnTeam_def list_ex_iff)

theorem filterOwnTeam_fast_path_witness:
  "\<not> skipTeamPrs \<lparr>user_name = ''core'', user_files = [''src/*''], skipTeamPrs = False\<rparr> \<and>
   filterOwnTeam hd (\<lambda>org. Inl ()) (\<lambda>creator team. Inl ())
     [\<lparr>user_name = ''core'', user_files = [''src/*''], skipTeamPrs = False\<rparr>]
     [''ann'', ''bob''] ''ann'' ''acme'' [] = (Inr [''ann'', ''bob''], [])"
proof -
  have h: "\<forall>user \<in> set [\<lparr>user_name = ''core'', user_files = [''src/*''], skipTeamPrs = False\<rparr>].
             \<not> skipTeamPrs user"
    by simp
  show ?thesis
    using filterOwnTeam_fast_path [OF h, of hd "\<lambda>org. Inl ()" "\<lambda>creator team. Inl ()"
        "[''ann'', ''bob'']" "''ann''" "''acme''" "[]"]
    by simp
qed

text \<open>
  C8. Both filters return a subsequence of \<open>owners\<close>: identifiers are removed, never
  reordered or repeated. \<^verbatim>\<open>filterPrivateRepo\<close> keeps the owners that are in the member
  list of the organisation; with the members \<open>a\<close>, \<open>b\<close> and the owners \<open>a\<close>, \<open>b\<close>, \<open>c\<close> it
  returns \<open>a\<close>, \<open>b\<close>.
\<close>

theorem filters_only_remove:
  "(filterOwnTeam firstSettled getTeams getTeamMembership users owners creator org calls =
      (Inr kept, calls') \<longrightarrow>
      subseq kept owners) \<and>
   (filterPrivateRepo getMembersOfOrg owners org calls = (Inr kept, calls') \<longrightarrow>
      subseq kept owners \<and>
      (\<exists>currentMembers. getMembersOfOrg org = Inr currentMembers \<and>
         kept = filter (\<lambda>owner. owner \<in> set currentMembers) owners)) \<and>
   fst (filterPrivateRepo (\<lambda>org. Inr [''a'', ''b'']) [''a'', ''b'', ''c''] org calls) =
     Inr [''a'', ''b'']"
  by (auto simp: filterOwnTeam_def filterPrivateRepo_def Let_def list_ex_iff
           split: sum.splits if_splits)

theorem filters_only_remove_witness:
  "subseq [''bob''] [''ann'', ''bob''] \<and>
   filterOwnTeam hd
     (\<lambda>org. Inr [\<lparr>team_name = ''core'', team_id = 7\<rparr>, \<lparr>team_name = ''docs'', team_id = 8\<rparr>])
     (\<lambda>creator team. Inr \<lparr>member_name = creator, state = ''active''\<rparr>)
     [\<lparr>user_name = ''core'', user_files = [], skipTeamPrs = True\<rparr>]
     [''ann'', ''bob''] ''ann'' ''acme'' [] =
   (Inr [''bob''] :: unit + string list,
    [GetTeams ''acme'', GetTeamMembership ''ann'' \<lparr>team_name = ''core'', team_id = 7\<rparr>]) \<and>
   subseq [''bob''] [''bob'', ''cy''] \<and>
   filterPrivateRepo (\<lambda>org. Inr [''ann'', ''bob'']) [''bob'', ''cy''] ''acme'' [] =
   (Inr [''bob''] :: unit + string list, [GetMembersOfOrg ''acme''])"
proof -
  have e: "filterOwnTeam hd
     (\<lambda>org. Inr [\<lparr>team_name = ''core'', team_id = 7\<rparr>, \<lparr>team_name = ''docs'', team_id = 8\<rparr>])
     (\<lambda>creator team. Inr \<lparr>member_name = creator, state = ''active''\<rparr>)
     [\<lparr>user_name = ''core'', user_files = [], skipTeamPrs = True\<rparr>]
     [''ann'', ''bob''] ''ann'' ''acme'' [] =
   (Inr [''bob''] :: unit + string list,
    [GetTeams ''acme'', GetTeamMembership ''ann'' \<lparr>team_name = ''core'', team_id = 7\<rparr>])"
    by (simp add: filterOwnTeam_def promiseAll_def List.map_filter_simps)
  have f: "filterPrivateRepo (\<lambda>org. Inr [''ann'', ''bob'']) [''bob'', ''cy''] ''acme'' [] =
   (Inr [''bob''] :: unit + string list, [GetMembersOfOrg ''acme''])"
    by (simp add: filterPrivateRepo_def)
  from filters_only_remove [THEN conjunct1, rule_format, OF e]
    filters_only_remove [THEN conjunct2, THEN conjunct1, rule_format, OF f] e f
  show ?thesis by simp
qed

section \<open>The selection of files\<close>

lemma fold_blacklist:
  "fold (\<lambda>glob fs. filter (\<lambda>file. \<not> minimatch (path file) glob) fs) fileBlacklist files =
   filter (\<lambda>file. \<not> list_ex (minimatch (path file)) fileBlacklist) files"
proof (induction fileBlacklist arbitrary: files)
  case Nil
  then show ?case by simp
next
  case (Cons glob globs)
  have "filter (\<lambda>file. \<not> list_ex (minimatch (path file)) globs)
          (filter (\<lambda>file. \<not> minimatch (path file) glob) files) =
        filter (\<lambda>file. \<not> list_ex (minimatch (path file)) (glob # globs)) files"
    by (induction files) auto
  with Cons show ?case by simp
qed

lemma compareDeleted_le:
  "(compareDeleted a b \<le> 0) = (length (deletedLines b) \<le> length (deletedLines a))"
  by (simp add: compareDeleted_def Let_def)

lemma length_filter_mset:
  assumes "mset ys = mset xs"
  shows "length (filter P ys) = length (filter P xs)"
proof -
  have "mset (filter P ys) = mset (filter P xs)"
    using assms by simp
  then show ?thesis by (metis size_mset)
qed

lemma set_insertBy: "set (insertBy cmp x ys) = insert x (set ys)"
  by (induction ys) auto

lemma mset_insertBy: "mset (insertBy cmp x ys) = add_mset x (mset ys)"
  by (induction ys) auto

lemma sorted_insertBy:
  assumes "sorted_wrt (\<lambda>a b. compareDeleted a b \<le> 0) ys"
  shows "sorted_wrt (\<lambda>a b. compareDeleted a b \<le> 0) (insertBy compareDeleted x ys)"
  using assms
  by (induction ys) (auto simp: set_insertBy compareDeleted_le)

lemma insertionSort_sortsBy:
  "sortsBy compareDeleted files (insertionSort compareDeleted files)"
  unfolding sortsBy_def insertionSort_def
  by (induction files) (auto simp: mset_insertBy sorted_insertBy)

text \<open>
  C2. For a sort that keeps its promise on \<open>files\<close> and a cap that is not negative, the
  selection is the three steps in their order: the sorted list, without the files whose
  path matches a glob of the blacklist, cut to its first \<open>numFilesToCheck\<close> entries. The
  result is ordered by falling number of deleted lines, and it is no longer than the cap
  and than the number of files that match no glob.
\<close>

theorem selectFiles_steps:
  assumes "sortsBy compareDeleted files (sortFn compareDeleted files)"
    and "0 \<le> numFilesToCheck"
  shows "selectFiles sortFn minimatch fileBlacklist numFilesToCheck files =
           take (nat numFilesToCheck)
             (filter (\<lambda>file. \<not> list_ex (minimatch (path file)) fileBlacklist)
                (sortFn compareDeleted files)) \<and>
         sorted_wrt (\<lambda>a b. length (deletedLines b) \<le> length (deletedLines a))
           (selectFiles sortFn minimatch fileBlacklist numFilesToCheck files) \<and>
         length (selectFiles sortFn minimatch fileBlacklist numFilesToCheck files) \<le>
           min (nat numFilesToCheck)
             (length (filter (\<lambda>file. \<not> list_ex (minimatch (path file)) fileBlacklist) files))"
proof -
  let ?sorted = "sortFn compareDeleted files"
  let ?keep = "\<lambda>file. \<not> list_ex (minimatch (path file)) fileBlacklist"
  have steps: "selectFiles sortFn minimatch fileBlacklist numFilesToCheck files =
               take (nat numFilesToCheck) (filter ?keep ?sorted)"
    using assms(2) by (simp add: selectFiles_def slice0_def fold_blacklist)
  have "sorted_wrt (\<lambda>a b. length (deletedLines b) \<le> length (deletedLines a)) ?sorted"
    using assms(1) by (simp add: sortsBy_def compareDeleted_le)
  then have ordered: "sorted_wrt (\<lambda>a b. length (deletedLines b) \<le> length (deletedLines a))
                        (take (nat numFilesToCheck) (filter ?keep ?sorted))"
    by (intro sorted_wrt_take sorted_wrt_filter)
  have "length (filter ?keep ?sorted) = length (filter ?keep files)"
    using assms(1) by (intro length_filter_mset) (simp add: sortsBy_def)
  then have bound: "length (take (nat numFilesToCheck) (filter ?keep ?sorted)) \<le>
                    min (nat numFilesToCheck) (length (filter ?keep files))"
    by simp
  from steps ordered bound show ?thesis by simp
qed

theorem selectFiles_steps_witness:
  "(0::int) \<le> 2 \<and>
   selectFiles insertionSort (\<lambda>p glob. startsWith p (butlast glob)) [''vendor/*''] 2
     [\<lparr>path = ''README'', deletedLines = []\<rparr>,
      \<lparr>path = ''vendor/x.js'', deletedLines = [3, 4, 5]\<rparr>,
      \<lparr>path = ''lib/a.js'', deletedLines = [7]\<rparr>,
      \<lparr>path = ''lib/b.js'', deletedLines = [1, 2]\<rparr>] =
   [\<lparr>path = ''lib/b.js'', deletedLines = [1, 2]\<rparr>, \<lparr>path = ''lib/a.js'', deletedLines = [7]\<rparr>]"
proof -
  have n: "(0::int) \<le> 2" by simp
  have s: "insertionSort compareDeleted [\<lparr>path = ''README'', deletedLines = []\<rparr>,
      \<lparr>path = ''vendor/x.js'', deletedLines = [3, 4, 5]\<rparr>,
      \<lparr>path = ''lib/a.js'', deletedLines = [7]\<rparr>,
      \<lparr>path = ''lib/b.js'', deletedLines = [1, 2]\<rparr>] =
     [\<lparr>path = ''vendor/x.js'', deletedLines = [3, 4, 5]\<rparr>,
      \<lparr>path = ''lib/b.js'', deletedLines = [1, 2]\<rparr>,
      \<lparr>path = ''lib/a.js'', deletedLines = [7]\<rparr>,
      \<lparr>path = ''README'', deletedLines = []\<rparr>]"
    by (simp add: insertionSort_def compareDeleted_def)
  have "selectFiles insertionSort (\<lambda>p glob. startsWith p (butlast glob)) [''vendor/*''] 2
     [\<lparr>path = ''README'', deletedLines = []\<rparr>,
      \<lparr>path = ''vendor/x.js'', deletedLines = [3, 4, 5]\<rparr>,
      \<lparr>path = ''lib/a.js'', deletedLines = [7]\<rparr>,
      \<lparr>path = ''lib/b.js'', deletedLines = [1, 2]\<rparr>] =
    take (nat 2) (filter (\<lambda>file. \<not> list_ex (\<lambda>glob. startsWith (path file) (butlast glob)) [''vendor/*''])
      (insertionSort compareDeleted [\<lparr>path = ''README'', deletedLines = []\<rparr>,
      \<lparr>path = ''vendor/x.js'', deletedLines = [3, 4, 5]\<rparr>,
      \<lparr>path = ''lib/a.js'', deletedLines = [7]\<rparr>,
      \<lparr>path = ''lib/b.js'', deletedLines = [1, 2]\<rparr>]))"
    by (rule selectFiles_steps [where sortFn = insertionSort and numFilesToCheck = 2
        and minimatch = "\<lambda>p glob. startsWith p (butlast glob)" and fileBlacklist = "[''vendor/*'']"
        and files = "[\<lparr>path = ''README'', deletedLines = []\<rparr>,
      \<lparr>path = ''vendor/x.js'', deletedLines = [3, 4, 5]\<rparr>,
      \<lparr>path = ''lib/a.js'', deletedLines = [7]\<rparr>,
      \<lparr>path = ''lib/b.js'', deletedLines = [1, 2]\<rparr>]",
        OF insertionSort_sortsBy n, THEN conjunct1])
  then show ?thesis
    unfolding s by (simp add: startsWith_def)
qed

section \<open>The owner lookup\<close>

lemma lastSeenPath_snoc: "lastSeenPath (fs @ [f]) = Some (path f)"
  by (simp add: lastSeenPath_def)

text \<open>
  C4. \<^verbatim>\<open>getPathInfo\<close> reads the selected files only through the path that the
  \<^verbatim>\<open>filter\<close> callback saw last: on a list that is not empty its result is the result on
  the last file alone, whatever the table \<open>pathInfo\<close>.
\<close>

theorem getPathInfo_last_only:
  assumes "files \<noteq> []"
  shows "getPathInfo pathInfo files = getPathInfo pathInfo [last files]"
proof -
  from assms obtain fs f where "files = fs @ [f]"
    by (metis append_butlast_last_id)
  then show ?thesis
    using lastSeenPath_snoc [of fs f] lastSeenPath_snoc [of "[]" f]
    by (simp add: getPathInfo_def)
qed

theorem getPathInfo_last_only_witness:
  "[\<lparr>path = ''lib/a.js'', deletedLines = [1, 2]\<rparr>, \<lparr>path = ''src/b.js'', deletedLines = [4]\<rparr>] \<noteq> [] \<and>
   getPathInfo [\<lparr>entry_path = ''lib/''\<rparr>, \<lparr>entry_path = ''src/''\<rparr>]
     [\<lparr>path = ''lib/a.js'', deletedLines = [1, 2]\<rparr>, \<lparr>path = ''src/b.js'', deletedLines = [4]\<rparr>] =
   getPathInfo [\<lparr>entry_path = ''lib/''\<rparr>, \<lparr>entry_path = ''src/''\<rparr>]
     [\<lparr>path = ''src/b.js'', deletedLines = [4]\<rparr>]"
proof -
  have h: "[\<lparr>path = ''lib/a.js'', deletedLines = [1, 2]\<rparr>,
            \<lparr>path = ''src/b.js'', deletedLines = [4]\<rparr>] \<noteq> []"
    by simp
  show ?thesis
    using h getPathInfo_last_only [OF h, of "[\<lparr>entry_path = ''lib/''\<rparr>, \<lparr>entry_path = ''src/''\<rparr>]"]
    by simp
qed

text \<open>
  C10. On an empty list of selected files \<^verbatim>\<open>getPathInfo\<close> throws a TypeError
  (\<^verbatim>\<open>fullPath\<close> is still \<^verbatim>\<open>undefined\<close> when \<^verbatim>\<open>indexOf\<close> is read), so \<^verbatim>\<open>checkRepoPath\<close> fails
  whenever the diff parses and the selection leaves no file.
\<close>

theorem checkRepoPath_no_files:
  "getPathInfo pathInfo [] = Inl TypeError \<and>
   (parseDiff diff = Inr files \<longrightarrow>
    selectFiles sortFn minimatch fileBlacklist numFilesToCheck files = [] \<longrightarrow>
    checkRepoPath sortFn minimatch pathInfo fileBlacklist numFilesToCheck diff = Inl TypeError)"
  by (simp add: getPathInfo_def lastSeenPath_def checkRepoPath_def)

theorem checkRepoPath_no_files_witness:
  "checkRepoPath insertionSort (\<lambda>p glob. False) [\<lparr>entry_path = ''src/''\<rparr>] [] 5 [] =
     Inl TypeError \<and>
   checkRepoPath insertionSort (\<lambda>p glob. startsWith p (butlast glob)) [\<lparr>entry_path = ''src/''\<rparr>]
     [''vendor/*''] 5
     (''diff --git a/vendor/x.png b/vendor/x.png'' @ [CHR 0x0A] @
      ''index 1f2a3b4..5c6d7e8 100644'' @ [CHR 0x0A] @
      ''Binary files a/vendor/x.png and b/vendor/x.png differ'') =
     Inl TypeError \<and>
   checkRepoPath insertionSort (\<lambda>p glob. False) [\<lparr>entry_path = ''src/''\<rparr>] [] 0
     (''diff --git a/vendor/x.png b/vendor/x.png'' @ [CHR 0x0A] @
      ''index 1f2a3b4..5c6d7e8 100644'' @ [CHR 0x0A] @
      ''Binary files a/vendor/x.png and b/vendor/x.png differ'') =
     Inl TypeError"
proof -
  let ?diff = "''diff --git a/vendor/x.png b/vendor/x.png'' @ [CHR 0x0A] @
      ''index 1f2a3b4..5c6d7e8 100644'' @ [CHR 0x0A] @
      ''Binary files a/vendor/x.png and b/vendor/x.png differ''"
  let ?files = "[\<lparr>path = ''vendor/x.png'', deletedLines = []\<rparr>]"
  have empty: "parseDiff [] = Inr []"
    by (simp add: parseDiff_def)
  have none: "selectFiles insertionSort (\<lambda>p glob. False) [] 5 [] = []"
    by (simp add: selectFiles_def insertionSort_def slice0_def)
  have parsed: "parseDiff ?diff = Inr ?files"
    by code_simp
  have listed: "selectFiles insertionSort (\<lambda>p glob. startsWith p (butlast glob))
                  [''vendor/*''] 5 ?files = []"
    by (simp add: selectFiles_def insertionSort_def slice0_def startsWith_def)
  have capped: "selectFiles insertionSort (\<lambda>p glob. False) [] 0 ?files = []"
    by (simp add: selectFiles_def slice0_def)
  note fails = checkRepoPath_no_files [THEN conjunct2, rule_format]
  from fails [OF empty none] fails [OF parsed listed] fails [OF parsed capped]
  show ?thesis by (intro conjI)
qed

end
